theory Spec2Isabelle
  imports Complex_Main "HOL-Library.Sublist" "HOL-Library.Log_Nat"
begin

section \<open>Values, tables and the object store\<close>

text \<open>
  The module \<^verbatim>\<open>functions.py\<close> works on pandas data frames. A data frame is modelled as
  its list of column names and its list of rows; a row is its index label together with
  one cell per column, in column order. Column names are taken to be distinct, as they
  are in every frame the module builds or reads. Cells carry no dtype.
\<close>

datatype pyerr = KeyError | IndexError | TypeError | AttributeError | ValueError | OSError

text \<open>
  A Python float is a finite binary64 value (a rational), an infinity, or NaN. Every
  comparison with NaN is false.
\<close>

datatype pyfloat = Fin rat | PInf | NInf | NaN

fun fle :: "pyfloat \<Rightarrow> pyfloat \<Rightarrow> bool" where
  "fle NaN _ = False"
| "fle _ NaN = False"
| "fle NInf _ = True"
| "fle _ PInf = True"
| "fle (Fin a) (Fin b) = (a \<le> b)"
| "fle PInf _ = False"
| "fle _ NInf = False"

definition fge :: "pyfloat \<Rightarrow> pyfloat \<Rightarrow> bool" where
  "fge a b = fle b a"

definition flt :: "pyfloat \<Rightarrow> pyfloat \<Rightarrow> bool" where
  "flt a b = (fle a b \<and> \<not> fle b a)"

text \<open>A cell is a string, a float (a missing value is the float NaN) or an integer.\<close>

datatype cell = Str string | Flt pyfloat | IntC int

type_synonym row = "nat \<times> cell list"

record table =
  columns :: "string list"
  rows :: "row list"

definition wf_table :: "table \<Rightarrow> bool" where
  "wf_table t = (distinct (columns t) \<and> list_all (\<lambda>r. length (snd r) = length (columns t)) (rows t))"

fun col_pos :: "string \<Rightarrow> string list \<Rightarrow> nat option" where
  "col_pos c [] = None"
| "col_pos c (x # xs) = (if x = c then Some 0 else map_option Suc (col_pos c xs))"

text \<open>\<^verbatim>\<open>df[name]\<close>: the cells of one column, or KeyError.\<close>

definition getitem :: "table \<Rightarrow> string \<Rightarrow> pyerr + cell list" where
  "getitem t name =
     (case col_pos name (columns t) of
        None \<Rightarrow> Inl KeyError
      | Some j \<Rightarrow> Inr (map (\<lambda>r. snd r ! j) (rows t)))"

text \<open>
  \<^verbatim>\<open>df[name] = values\<close>, the values having the frame's own index: an existing column is
  overwritten where it stands, a new one is appended as the last column.
\<close>

definition setitem :: "table \<Rightarrow> string \<Rightarrow> cell list \<Rightarrow> table" where
  "setitem t name vals =
     (case col_pos name (columns t) of
        None \<Rightarrow> \<lparr>columns = columns t @ [name],
                 rows = map (\<lambda>(r, v). (fst r, snd r @ [v])) (zip (rows t) vals)\<rparr>
      | Some j \<Rightarrow> \<lparr>columns = columns t,
                   rows = map (\<lambda>(r, v). (fst r, (snd r)[j := v])) (zip (rows t) vals)\<rparr>)"

text \<open>\<^verbatim>\<open>df[mask]\<close>: the rows whose mask entry is true, index labels kept.\<close>

definition loc_mask :: "table \<Rightarrow> bool list \<Rightarrow> table" where
  "loc_mask t keep = \<lparr>columns = columns t, rows = map fst (filter snd (zip (rows t) keep))\<rparr>"

text \<open>\<^verbatim>\<open>series.apply(f)\<close>: \<^verbatim>\<open>f\<close> on each cell in order; the first exception ends the call.\<close>

fun apply_series :: "('a \<Rightarrow> pyerr + 'b) \<Rightarrow> 'a list \<Rightarrow> pyerr + 'b list" where
  "apply_series f [] = Inr []"
| "apply_series f (x # xs) =
     (case f x of
        Inl e \<Rightarrow> Inl e
      | Inr y \<Rightarrow> (case apply_series f xs of Inl e \<Rightarrow> Inl e | Inr ys \<Rightarrow> Inr (y # ys)))"

text \<open>
  Data frames are mutable objects. The store holds every live frame; a reference is a
  position in it, and a new object is allocated at the end.
\<close>

type_synonym store = "table list"
type_synonym ref = nat

definition alloc :: "store \<Rightarrow> table \<Rightarrow> store \<times> ref" where
  "alloc st t = (st @ [t], length st)"

text \<open>\<^verbatim>\<open>df.copy()\<close>\<close>

definition copy :: "store \<Rightarrow> ref \<Rightarrow> store \<times> ref" where
  "copy st df = alloc st (st ! df)"

section \<open>Sentiment\<close>

text \<open>The number a cell compares as; ordering a string against a float raises TypeError.\<close>

fun num_of :: "cell \<Rightarrow> pyerr + pyfloat" where
  "num_of (Flt f) = Inr f"
| "num_of (IntC i) = Inr (Fin (of_int i))"
| "num_of (Str s) = Inl TypeError"

text \<open>The inner function \<^verbatim>\<open>categorize\<close> of \<^verbatim>\<open>add_sentiment_category\<close>.\<close>

definition categorize :: "pyfloat \<Rightarrow> pyfloat \<Rightarrow> pyfloat \<Rightarrow> int" where
  "categorize neg_treshhold pos_treshhold score =
     (if fle score neg_treshhold then - 1
      else if fge score pos_treshhold then 1
      else 0)"

definition categorize_cell :: "pyfloat \<Rightarrow> pyfloat \<Rightarrow> cell \<Rightarrow> pyerr + cell" where
  "categorize_cell neg_treshhold pos_treshhold c =
     (case num_of c of
        Inl e \<Rightarrow> Inl e
      | Inr score \<Rightarrow> Inr (IntC (categorize neg_treshhold pos_treshhold score)))"

definition add_sentiment_category ::
  "store \<Rightarrow> ref \<Rightarrow> pyfloat \<Rightarrow> pyfloat \<Rightarrow> store \<times> (pyerr + ref)" where
  "add_sentiment_category st df neg_treshhold pos_treshhold =
     (case copy st df of (st1, df_copy) \<Rightarrow>
        (case getitem (st1 ! df_copy) ''sentiment'' of
           Inl e \<Rightarrow> (st1, Inl e)
         | Inr scores \<Rightarrow>
             (case apply_series (categorize_cell neg_treshhold pos_treshhold) scores of
                Inl e \<Rightarrow> (st1, Inl e)
              | Inr cats \<Rightarrow>
                  (st1[df_copy := setitem (st1 ! df_copy) ''sentiment_category'' cats],
                   Inr df_copy))))"

text \<open>
  \<^verbatim>\<open>add_polarity_score_to_df\<close>. The analyzer is a parameter: \<^verbatim>\<open>sid\<close> gives the compound
  score of a text. The analyzer reads a text that is not a string through its
  \<^verbatim>\<open>encode\<close> method, which numbers do not have.
\<close>

definition polarity_cell :: "(string \<Rightarrow> pyfloat) \<Rightarrow> cell \<Rightarrow> pyerr + cell" where
  "polarity_cell sid c = (case c of Str quotation \<Rightarrow> Inr (Flt (sid quotation)) | _ \<Rightarrow> Inl AttributeError)"

definition add_polarity_score_to_df ::
  "(string \<Rightarrow> pyfloat) \<Rightarrow> store \<Rightarrow> ref \<Rightarrow> store \<times> (pyerr + ref)" where
  "add_polarity_score_to_df sid st df =
     (case copy st df of (st1, df_copy) \<Rightarrow>
        (case getitem (st1 ! df_copy) ''quotation'' of
           Inl e \<Rightarrow> (st1, Inl e)
         | Inr quotations \<Rightarrow>
             (case apply_series (polarity_cell sid) quotations of
                Inl e \<Rightarrow> (st1, Inl e)
              | Inr scores \<Rightarrow>
                  (st1[df_copy := setitem (st1 ! df_copy) ''sentiment'' scores],
                   Inr df_copy))))"

text \<open>Example frames: the five scores of the categorisation example, as binary64 values
  of \<^verbatim>\<open>-0.05\<close>, \<^verbatim>\<open>0.05\<close>, \<^verbatim>\<open>0.0\<close>, \<^verbatim>\<open>-0.2\<close>, \<^verbatim>\<open>0.2\<close>, and a frame with the single score 0.\<close>

definition sentiment_example :: table where
  "sentiment_example =
     \<lparr>columns = [''quoteID'', ''sentiment''],
      rows = [(0, [Str ''q0'', Flt (Fin (- (3602879701896397 / 72057594037927936)))]),
              (1, [Str ''q1'', Flt (Fin (3602879701896397 / 72057594037927936))]),
              (2, [Str ''q2'', Flt (Fin 0)]),
              (3, [Str ''q3'', Flt (Fin (- (3602879701896397 / 18014398509481984)))]),
              (4, [Str ''q4'', Flt (Fin (3602879701896397 / 18014398509481984))])]\<rparr>"

definition tie_example :: table where
  "tie_example = \<lparr>columns = [''sentiment''], rows = [(0, [Flt (Fin 0)])]\<rparr>"

text \<open>A frame of quotations and an analyzer, for the examples.\<close>

definition quotes_example :: table where
  "quotes_example =
     \<lparr>columns = [''quoteID'', ''quotation''],
      rows = [(0, [Str ''q0'', Str ''great news'']), (1, [Str ''q1'', Str ''a report''])]\<rparr>"

definition example_sid :: "string \<Rightarrow> pyfloat" where
  "example_sid quotation = (if quotation = ''great news'' then Fin (3 / 4) else Fin 0)"

section \<open>Confidence filter\<close>

text \<open>
  The pattern \<^verbatim>\<open>([\d][.][\d]*)\<close>: one digit, a dot, then as many digits as follow.
  Characters are bytes here, so \<^verbatim>\<open>\d\<close> is an ASCII digit.
\<close>

definition is_digit :: "char \<Rightarrow> bool" where
  "is_digit c = (c \<in> set ''0123456789'')"

text \<open>The pattern matched at the start of a string.\<close>

fun match_here :: "string \<Rightarrow> string option" where
  "match_here (d # p # rest) =
     (if is_digit d \<and> p = CHR ''.'' then Some (d # p # takeWhile is_digit rest) else None)"
| "match_here _ = None"

text \<open>The leftmost match, as \<^verbatim>\<open>re.search\<close> finds it.\<close>

fun re_search :: "string \<Rightarrow> string option" where
  "re_search [] = None"
| "re_search (c # cs) =
     (case match_here (c # cs) of Some m \<Rightarrow> Some m | None \<Rightarrow> re_search cs)"

text \<open>\<^verbatim>\<open>.str.extract(pattern)\<close> on one cell: the group of the first match; a missing value
  when there is no match or the cell is not a string.\<close>

definition str_extract :: "cell \<Rightarrow> cell" where
  "str_extract c =
     (case c of
        Str s \<Rightarrow> (case re_search s of Some m \<Rightarrow> Str m | None \<Rightarrow> Flt NaN)
      | _ \<Rightarrow> Flt NaN)"

text \<open>\<^verbatim>\<open>.astype('float')\<close> on one extracted cell; \<^verbatim>\<open>to_float\<close> is the conversion of a
  decimal text to a float.\<close>

definition astype_float :: "(string \<Rightarrow> pyfloat) \<Rightarrow> cell \<Rightarrow> cell" where
  "astype_float to_float c =
     (case c of Str m \<Rightarrow> Flt (to_float m) | Flt f \<Rightarrow> Flt f | IntC i \<Rightarrow> Flt (Fin (of_int i)))"

text \<open>
  The \<^verbatim>\<open>.str\<close> accessor raises AttributeError on a column that is not of strings: among
  the cells that are not missing there must be a string, or none at all.
\<close>

definition str_accessor_ok :: "cell list \<Rightarrow> bool" where
  "str_accessor_ok cells =
     (let present = filter (\<lambda>c. c \<noteq> Flt NaN) cells
      in present = [] \<or> list_ex (\<lambda>c. case c of Str s \<Rightarrow> True | _ \<Rightarrow> False) present)"

text \<open>\<^verbatim>\<open>cell >= cutoff\<close>\<close>

definition ge_cell :: "pyfloat \<Rightarrow> cell \<Rightarrow> pyerr + bool" where
  "ge_cell cutoff c = (case num_of c of Inl e \<Rightarrow> Inl e | Inr f \<Rightarrow> Inr (fge f cutoff))"

definition high_probability_quotes ::
  "(string \<Rightarrow> pyfloat) \<Rightarrow> store \<Rightarrow> ref \<Rightarrow> pyfloat \<Rightarrow> store \<times> (pyerr + ref)" where
  "high_probability_quotes to_float st df cutoff =
     (case getitem (st ! df) ''probas'' of
        Inl e \<Rightarrow> (st, Inl e)
      | Inr probas \<Rightarrow>
          if \<not> str_accessor_ok probas then (st, Inl AttributeError)
          else
            (let st1 = st[df := setitem (st ! df) ''probasE''
                                  (map (\<lambda>c. astype_float to_float (str_extract c)) probas)]
             in case getitem (st1 ! df) ''probasE'' of
                  Inl e \<Rightarrow> (st1, Inl e)
                | Inr probasE \<Rightarrow>
                    (case apply_series (ge_cell cutoff) probasE of
                       Inl e \<Rightarrow> (st1, Inl e)
                     | Inr keep \<Rightarrow>
                         (case alloc st1 (loc_mask (st1 ! df) keep) of
                            (st2, r) \<Rightarrow> (st2, Inr r)))))"

text \<open>In the words of the specification: a string holds a decimal number where a digit
  is followed by a dot; the first one starts at the leftmost such place and takes the
  digit, the dot and all the digits that follow.\<close>

definition has_decimal :: "string \<Rightarrow> bool" where
  "has_decimal s = (\<exists>i. Suc i < length s \<and> is_digit (s ! i) \<and> s ! Suc i = CHR ''.'')"

definition first_decimal :: "string \<Rightarrow> string \<Rightarrow> bool" where
  "first_decimal s m =
     (\<exists>i. Suc i < length s \<and> is_digit (s ! i) \<and> s ! Suc i = CHR ''.'' \<and>
          (\<forall>j<i. \<not> (is_digit (s ! j) \<and> s ! Suc j = CHR ''.'')) \<and>
          m = s ! i # CHR ''.'' # takeWhile is_digit (drop (i + 2) s))"

text \<open>The float a \<^verbatim>\<open>probas\<close> cell gets in the column \<^verbatim>\<open>probasE\<close>: extraction, then conversion.\<close>

definition probasE_cell :: "(string \<Rightarrow> pyfloat) \<Rightarrow> cell \<Rightarrow> pyfloat" where
  "probasE_cell to_float c =
     (case c of
        Str s \<Rightarrow> (case re_search s of Some m \<Rightarrow> to_float m | None \<Rightarrow> NaN)
      | _ \<Rightarrow> NaN)"

text \<open>
  The conversion \<^verbatim>\<open>float\<close> of a decimal text: its exact value, rounded to the nearest
  binary64 number, ties to even.
\<close>

definition digit_val :: "char \<Rightarrow> int" where
  "digit_val c = of_char c - 48"

definition digits_val :: "string \<Rightarrow> int" where
  "digits_val ds = foldl (\<lambda>a c. 10 * a + digit_val c) 0 ds"

definition decimal_val :: "string \<Rightarrow> rat" where
  "decimal_val m =
     (let ip = takeWhile (\<lambda>c. c \<noteq> CHR ''.'') m;
          fp = drop (Suc (length ip)) m
      in of_int (digits_val ip) + of_int (digits_val fp) / 10 ^ length fp)"

definition pow2 :: "int \<Rightarrow> rat" where
  "pow2 e = (if 0 \<le> e then 2 ^ nat e else 1 / 2 ^ nat (- e))"

definition round_half_even :: "rat \<Rightarrow> int" where
  "round_half_even x =
     (let f = \<lfloor>x\<rfloor>; r = x - of_int f
      in if r < 1 / 2 then f else if 1 / 2 < r then f + 1 else if even f then f else f + 1)"

definition binary64 :: "rat \<Rightarrow> pyfloat" where
  "binary64 q =
     (if q = 0 then Fin 0
      else
        let a = \<bar>q\<bar>;
            e0 = bitlen (fst (quotient_of a)) - bitlen (snd (quotient_of a));
            e = (if a < pow2 e0 then e0 - 1 else e0);
            k = (if e < - 1022 then - 1074 else e - 52);
            v = of_int (round_half_even (a / pow2 k)) * pow2 k
        in if pow2 1024 \<le> v then (if q < 0 then NInf else PInf)
           else Fin (if q < 0 then - v else v))"

definition float_of_decimal :: "string \<Rightarrow> pyfloat" where
  "float_of_decimal m = binary64 (decimal_val m)"

definition probas_example :: table where
  "probas_example =
     \<lparr>columns = [''quoteID'', ''probas''],
      rows = [(0, [Str ''q0'', Str ''[('A', 0.85)]'']),
              (1, [Str ''q1'', Str ''[('B', 0.5)]'']),
              (2, [Str ''q2'', Str ''[]''])]\<rparr>"

section \<open>Files of a year\<close>

text \<open>\<^verbatim>\<open>str\<close> of an integer: its decimal digits, after a minus sign when it is negative.\<close>

definition digit_char :: "nat \<Rightarrow> char" where
  "digit_char d = ''0123456789'' ! d"

function str_nat :: "nat \<Rightarrow> string" where
  "str_nat n = (if n < 10 then [digit_char n] else str_nat (n div 10) @ [digit_char (n mod 10)])"
  by pat_completeness auto

termination
  by (relation "measure (\<lambda>n. n)") auto

declare str_nat.simps [simp del]

definition str_int :: "int \<Rightarrow> string" where
  "str_int i = (if i < 0 then CHR ''-'' # str_nat (nat (- i)) else str_nat (nat i))"

text \<open>A year is given as an integer or as a string; \<^verbatim>\<open>str(year)\<close> is taken of it.\<close>

datatype year = YInt int | YStr string

fun str_year :: "year \<Rightarrow> string" where
  "str_year (YInt i) = str_int i"
| "str_year (YStr s) = s"

text \<open>\<^verbatim>\<open>s.startswith(p)\<close>\<close>

definition startswith :: "string \<Rightarrow> string \<Rightarrow> bool" where
  "startswith s p = (take (length p) s = p)"

text \<open>
  The file system as the module sees it: what \<^verbatim>\<open>os.listdir\<close> returns for a directory,
  in its order, and the frame \<^verbatim>\<open>pd.read_csv\<close> reads from a path. Either may raise.
\<close>

record env =
  listdir :: "string \<Rightarrow> pyerr + string list"
  read_csv :: "string \<Rightarrow> pyerr + table"

definition find_csv_filenames :: "env \<Rightarrow> string \<Rightarrow> year \<Rightarrow> pyerr + string list" where
  "find_csv_filenames e path_to_dir yr =
     (case listdir e path_to_dir of
        Inl err \<Rightarrow> Inl err
      | Inr filenames \<Rightarrow>
          Inr (filter (\<lambda>filename. startswith filename (''quotes-'' @ str_year yr @ ''-'')) filenames))"

text \<open>\<^verbatim>\<open>df[df["speaker"] == speaker]\<close>\<close>

definition filter_speaker :: "table \<Rightarrow> string \<Rightarrow> pyerr + table" where
  "filter_speaker df speaker =
     (case getitem df ''speaker'' of
        Inl err \<Rightarrow> Inl err
      | Inr col \<Rightarrow> Inr (loc_mask df (map (\<lambda>c. c = Str speaker) col)))"

text \<open>
  \<^verbatim>\<open>pd.concat([a, b], axis=0)\<close>: the columns of \<^verbatim>\<open>a\<close>, then those of \<^verbatim>\<open>b\<close> that \<^verbatim>\<open>a\<close> lacks; the
  rows of \<^verbatim>\<open>a\<close>, then the rows of \<^verbatim>\<open>b\<close>, index labels kept, a missing value where a frame
  has no such column.
\<close>

definition reindex_row :: "string list \<Rightarrow> string list \<Rightarrow> row \<Rightarrow> row" where
  "reindex_row old new r =
     (fst r, map (\<lambda>c. case col_pos c old of None \<Rightarrow> Flt NaN | Some j \<Rightarrow> snd r ! j) new)"

definition concat_frames :: "table \<Rightarrow> table \<Rightarrow> table" where
  "concat_frames a b =
     (let new = columns a @ filter (\<lambda>c. c \<notin> set (columns a)) (columns b)
      in \<lparr>columns = new,
          rows = map (reindex_row (columns a) new) (rows a) @
                 map (reindex_row (columns b) new) (rows b)\<rparr>)"

text \<open>The loop of \<^verbatim>\<open>get_quotes\<close> over the chunks after the first.\<close>

fun get_quotes_loop :: "env \<Rightarrow> string \<Rightarrow> string list \<Rightarrow> table \<Rightarrow> pyerr + table" where
  "get_quotes_loop e speaker [] df_all = Inr df_all"
| "get_quotes_loop e speaker (name # names) df_all =
     (case read_csv e (''Data/'' @ name) of
        Inl err \<Rightarrow> Inl err
      | Inr current_df \<Rightarrow>
          (case filter_speaker current_df speaker of
             Inl err \<Rightarrow> Inl err
           | Inr df_elo_current \<Rightarrow>
               get_quotes_loop e speaker names (concat_frames df_all df_elo_current)))"

definition get_quotes :: "env \<Rightarrow> string \<Rightarrow> year \<Rightarrow> pyerr + table" where
  "get_quotes e speaker yr =
     (case find_csv_filenames e ''Data/'' yr of
        Inl err \<Rightarrow> Inl err
      | Inr filenames \<Rightarrow>
          (case filenames of
             [] \<Rightarrow> Inl IndexError
           | first # names \<Rightarrow>
               (case read_csv e (''Data/'' @ first) of
                  Inl err \<Rightarrow> Inl err
                | Inr df1 \<Rightarrow>
                    (case filter_speaker df1 speaker of
                       Inl err \<Rightarrow> Inl err
                     | Inr df_all \<Rightarrow> get_quotes_loop e speaker names df_all))))"

text \<open>Example directories.\<close>

definition scan_example :: env where
  "scan_example =
     \<lparr>listdir = (\<lambda>p. if p = ''Data/'' then Inr [''quotes-2020-1'', ''quotes-2021-1'', ''other-2020-1'']
                      else Inl OSError),
      read_csv = (\<lambda>p. Inl OSError)\<rparr>"

definition chunk1_example :: table where
  "chunk1_example =
     \<lparr>columns = [''quotation'', ''speaker''],
      rows = [(0, [Str ''one'', Str ''A'']), (1, [Str ''two'', Str ''B'']),
              (2, [Str ''three'', Str ''A'']), (3, [Str ''four'', Str ''a''])]\<rparr>"

definition chunk2_example :: table where
  "chunk2_example =
     \<lparr>columns = [''quotation'', ''speaker''],
      rows = [(0, [Str ''five'', Str ''B'']), (1, [Str ''six'', Flt NaN])]\<rparr>"

definition chunks_example :: env where
  "chunks_example =
     \<lparr>listdir = (\<lambda>p. if p = ''Data/'' then Inr [''quotes-2020-2'', ''notes.txt'', ''quotes-2020-1'']
                      else Inl OSError),
      read_csv = (\<lambda>p. if p = ''Data/quotes-2020-1'' then Inr chunk1_example
                       else if p = ''Data/quotes-2020-2'' then Inr chunk2_example
                       else Inl OSError)\<rparr>"

definition chunk_of_example :: "string \<Rightarrow> table" where
  "chunk_of_example name = (if name = ''quotes-2020-1'' then chunk1_example else chunk2_example)"

section \<open>Organizations\<close>

text \<open>\<^verbatim>\<open>df.iloc[i][name]\<close>, for a row position \<^verbatim>\<open>i\<close> within the frame.\<close>

definition iloc_get :: "table \<Rightarrow> nat \<Rightarrow> string \<Rightarrow> pyerr + cell" where
  "iloc_get df i name =
     (case col_pos name (columns df) of
        None \<Rightarrow> Inl KeyError
      | Some j \<Rightarrow> Inr (snd (rows df ! i) ! j))"

text \<open>
  The dictionaries appended for row \<^verbatim>\<open>i\<close>, as their values in key order \<^verbatim>\<open>ORG\<close>, \<^verbatim>\<open>date\<close>,
  \<^verbatim>\<open>numOccurrences\<close>, \<^verbatim>\<open>quotation\<close>, \<^verbatim>\<open>quoteID\<close>, \<^verbatim>\<open>probas\<close>. The loaded pipeline is the
  parameter \<^verbatim>\<open>spacy_nlp\<close>: the entities of a text, each with its text and its label. It
  raises on a quotation that is not a string. The five fields are read only for an entity
  labelled \<^verbatim>\<open>ORG\<close>.
\<close>

definition org_dict :: "table \<Rightarrow> nat \<Rightarrow> string \<times> string \<Rightarrow> pyerr + cell list" where
  "org_dict df i element =
     (case apply_series (iloc_get df i)
             [''date'', ''numOccurrences'', ''quotation'', ''quoteID'', ''probas''] of
        Inl err \<Rightarrow> Inl err
      | Inr carried \<Rightarrow> Inr (Str (fst element) # carried))"

definition org_dicts ::
  "(string \<Rightarrow> (string \<times> string) list) \<Rightarrow> table \<Rightarrow> nat \<Rightarrow> pyerr + cell list list" where
  "org_dicts spacy_nlp df i =
     (case iloc_get df i ''quotation'' of
        Inl err \<Rightarrow> Inl err
      | Inr (Str quote) \<Rightarrow>
          apply_series (org_dict df i) (filter (\<lambda>element. snd element = ''ORG'') (spacy_nlp quote))
      | Inr _ \<Rightarrow> Inl TypeError)"

text \<open>\<^verbatim>\<open>pd.DataFrame.from_dict(quote_list)\<close>: one row per dictionary, numbered from 0; no
  columns at all for an empty list.\<close>

definition from_dict :: "cell list list \<Rightarrow> table" where
  "from_dict quote_list =
     \<lparr>columns = (if quote_list = [] then []
                 else [''ORG'', ''date'', ''numOccurrences'', ''quotation'', ''quoteID'', ''probas'']),
      rows = zip [0..<length quote_list] quote_list\<rparr>"

text \<open>\<^verbatim>\<open>drop_duplicates()\<close>: a row whose cells equal those of an earlier row is dropped; the
  first of equal rows stays, with its index label.\<close>

fun drop_seen :: "cell list list \<Rightarrow> row list \<Rightarrow> row list" where
  "drop_seen seen [] = []"
| "drop_seen seen (r # rs) =
     (if snd r \<in> set seen then drop_seen seen rs else r # drop_seen (snd r # seen) rs)"

definition drop_duplicates :: "table \<Rightarrow> table" where
  "drop_duplicates t = \<lparr>columns = columns t, rows = drop_seen [] (rows t)\<rparr>"

definition create_org_df ::
  "(string \<Rightarrow> (string \<times> string) list) \<Rightarrow> table \<Rightarrow> pyerr + table" where
  "create_org_df spacy_nlp df =
     (case apply_series (org_dicts spacy_nlp df) [0..<length (rows df)] of
        Inl err \<Rightarrow> Inl err
      | Inr per_row \<Rightarrow> Inr (drop_duplicates (from_dict (concat per_row))))"

text \<open>Example: a pipeline that tags \<^verbatim>\<open>Tesla\<close> and \<^verbatim>\<open>SpaceX\<close>, and three quotations.\<close>

definition example_nlp :: "string \<Rightarrow> (string \<times> string) list" where
  "example_nlp quote =
     (if quote = ''Tesla Tesla'' then [(''Tesla'', ''ORG''), (''Tesla'', ''ORG'')]
      else if quote = ''Tesla and SpaceX in Texas''
        then [(''Tesla'', ''ORG''), (''SpaceX'', ''ORG''), (''Texas'', ''GPE'')]
      else [])"

definition org_example :: table where
  "org_example =
     \<lparr>columns = [''quoteID'', ''quotation'', ''date'', ''numOccurrences'', ''probas''],
      rows = [(0, [Str ''q0'', Str ''Tesla Tesla'', Str ''2020-01-01'', IntC 2, Str ''[]'']),
              (1, [Str ''q1'', Str ''nothing here'', Str ''2020-01-02'', IntC 1, Str ''[]'']),
              (2, [Str ''q2'', Str ''Tesla and SpaceX in Texas'', Str ''2020-01-03'', IntC 5, Str ''[]''])]\<rparr>"

section \<open>Chunking\<close>

text \<open>
  What a file holds: the text \<^verbatim>\<open>to_csv(index=False)\<close> writes for a frame, given by the
  header and the rows it serialises, or the \<^verbatim>\<open>bz2\<close> compression of a content. The file
  system maps a path to the content of the file there. The directory \<^verbatim>\<open>Data/\<close> is taken to
  exist.
\<close>

datatype content = Csv "string list" "cell list list" | Bz2 content

type_synonym fs = "string \<rightharpoonup> content"

text \<open>
  \<^verbatim>\<open>pd.read_json(..., chunksize=n, lines=True)\<close> on a source whose lines all have the same
  keys: the rows in batches of \<^verbatim>\<open>n\<close>, the last one shorter when the rows run out; no batch
  for a source without rows.
\<close>

function chunks_of :: "nat \<Rightarrow> 'a list \<Rightarrow> 'a list list" where
  "chunks_of n xs = (if xs = [] \<or> n = 0 then [] else take n xs # chunks_of n (drop n xs))"
  by pat_completeness auto

termination
  by (relation "measure (\<lambda>(n, xs). length xs)") auto

declare chunks_of.simps [simp del]

definition csv_name :: "string \<Rightarrow> nat \<Rightarrow> string" where
  "csv_name outputname batch_no = ''Data/'' @ outputname @ ''-'' @ str_nat batch_no @ ''.csv''"

text \<open>The body of the loop of \<^verbatim>\<open>chunkify\<close>, for the chunks still to come.\<close>

fun chunkify_loop ::
  "string \<Rightarrow> string list \<Rightarrow> nat \<Rightarrow> cell list list list \<Rightarrow> fs \<Rightarrow> pyerr + fs" where
  "chunkify_loop outputname header batch_no [] files = Inr files"
| "chunkify_loop outputname header batch_no (chunk # chunks) files =
     (let output = csv_name outputname batch_no;
          files1 = files(output \<mapsto> Csv header chunk);
          source_file = output;
          destination_file = output @ ''.bz2''
      in case files1 source_file of
           None \<Rightarrow> Inl OSError
         | Some data \<Rightarrow>
             (let files2 = files1(destination_file \<mapsto> Bz2 data);
                  files3 = files2(output := None)
              in chunkify_loop outputname header (batch_no + 1) chunks files3))"

text \<open>
  \<^verbatim>\<open>chunkify\<close>. The source is given by its header and its rows. A chunk size below 1 is
  refused by the reader with ValueError. The flag \<^verbatim>\<open>timing\<close> only prints elapsed times.
\<close>

definition chunkify ::
  "fs \<Rightarrow> string list \<Rightarrow> cell list list \<Rightarrow> int \<Rightarrow> string \<Rightarrow> pyerr + fs" where
  "chunkify files header source_rows chunk_size outputname =
     (if chunk_size < 1 then Inl ValueError
      else chunkify_loop outputname header 1 (chunks_of (nat chunk_size) source_rows) files)"

text \<open>Example: a source of five rows, and a disk that still holds a stale file.\<close>

definition source_example :: "cell list list" where
  "source_example =
     [[Str ''q1'', Str ''A''], [Str ''q2'', Str ''B''], [Str ''q3'', Str ''A''],
      [Str ''q4'', Str ''C''], [Str ''q5'', Str ''B'']]"

definition disk_example :: fs where
  "disk_example = [''Data/quotes-2020-2.csv'' \<mapsto> Csv [''old''] []]"

section \<open>Facts about tables\<close>

lemma col_pos_None_iff: "col_pos c cs = None \<longleftrightarrow> c \<notin> set cs"
  by (induction cs) auto

lemma col_pos_Some: "col_pos c cs = Some j \<Longrightarrow> j < length cs \<and> cs ! j = c"
  by (induction cs arbitrary: j) (auto split: if_splits)

lemma col_pos_append_new: "c \<notin> set cs \<Longrightarrow> col_pos c (cs @ [c]) = Some (length cs)"
  by (induction cs) auto

lemma col_pos_append_old: "col_pos d cs = Some j \<Longrightarrow> col_pos d (cs @ [c]) = Some j"
  by (induction cs arbitrary: j) (auto split: if_splits)

lemma col_pos_append_other: "d \<noteq> c \<Longrightarrow> col_pos d (cs @ [c]) = col_pos d cs"
  by (induction cs) auto

lemma col_pos_inj: "col_pos c cs = Some j \<Longrightarrow> col_pos d cs = Some j \<Longrightarrow> c = d"
  using col_pos_Some by blast

lemma apply_series_length: "apply_series f xs = Inr ys \<Longrightarrow> length ys = length xs"
  by (induction xs arbitrary: ys) (auto split: sum.splits)

lemma apply_series_nth:
  "apply_series f xs = Inr ys \<Longrightarrow> k < length xs \<Longrightarrow> f (xs ! k) = Inr (ys ! k)"
proof (induction xs arbitrary: ys k)
  case Nil
  then show ?case by simp
next
  case (Cons x xs)
  then show ?case by (cases k) (auto split: sum.splits)
qed

lemma apply_series_total:
  "list_all (\<lambda>x. \<exists>y. f x = Inr y) xs \<Longrightarrow> \<exists>ys. apply_series f xs = Inr ys"
  by (induction xs) auto

lemma getitem_length: "getitem t c = Inr xs \<Longrightarrow> length xs = length (rows t)"
  by (auto simp: getitem_def split: option.splits)

lemma getitem_setitem_same:
  assumes "wf_table t" "length vals = length (rows t)"
  shows "getitem (setitem t name vals) name = Inr vals"
proof (cases "col_pos name (columns t)")
  case None
  then have n: "name \<notin> set (columns t)" by (simp add: col_pos_None_iff)
  have "map (\<lambda>r. snd r ! length (columns t)) (map (\<lambda>(r, v). (fst r, snd r @ [v])) (zip (rows t) vals)) = vals"
    using assms by (intro nth_equalityI) (auto simp: wf_table_def list_all_length nth_append)
  with None n show ?thesis
    by (simp add: getitem_def setitem_def col_pos_append_new)
next
  case (Some j)
  then have j: "j < length (columns t)" using col_pos_Some by blast
  have "map (\<lambda>r. snd r ! j) (map (\<lambda>(r, v). (fst r, (snd r)[j := v])) (zip (rows t) vals)) = vals"
    using assms j by (intro nth_equalityI) (auto simp: wf_table_def list_all_length)
  with Some show ?thesis
    by (simp add: getitem_def setitem_def)
qed

lemma getitem_setitem_other:
  assumes "wf_table t" "length vals = length (rows t)" "c \<noteq> name"
  shows "getitem (setitem t name vals) c = getitem t c"
proof (cases "col_pos name (columns t)")
  case None
  show ?thesis
  proof (cases "col_pos c (columns t)")
    case n: None
    with None assms show ?thesis
      by (simp add: getitem_def setitem_def col_pos_append_other)
  next
    case (Some i)
    then have i: "i < length (columns t)" using col_pos_Some by blast
    have "map (\<lambda>r. snd r ! i) (map (\<lambda>(r, v). (fst r, snd r @ [v])) (zip (rows t) vals))
          = map (\<lambda>r. snd r ! i) (rows t)"
      using assms i by (intro nth_equalityI) (auto simp: wf_table_def list_all_length nth_append)
    with None Some assms show ?thesis
      by (simp add: getitem_def setitem_def col_pos_append_other)
  qed
next
  case (Some j)
  show ?thesis
  proof (cases "col_pos c (columns t)")
    case None
    with Some show ?thesis by (simp add: getitem_def setitem_def)
  next
    case s: (Some i)
    with Some assms have "i \<noteq> j" using col_pos_inj by blast
    then have "map (\<lambda>r. snd r ! i) (map (\<lambda>(r, v). (fst r, (snd r)[j := v])) (zip (rows t) vals))
          = map (\<lambda>r. snd r ! i) (rows t)"
      using assms by (intro nth_equalityI) auto
    with Some s show ?thesis by (simp add: getitem_def setitem_def)
  qed
qed

lemma setitem_index:
  "length vals = length (rows t) \<Longrightarrow> map fst (rows (setitem t name vals)) = map fst (rows t)"
  by (auto simp: setitem_def split: option.splits intro!: nth_equalityI)

lemma setitem_columns:
  "columns (setitem t name vals) = (if name \<in> set (columns t) then columns t else columns t @ [name])"
proof (cases "col_pos name (columns t)")
  case None
  then have "name \<notin> set (columns t)" by (simp add: col_pos_None_iff)
  with None show ?thesis by (simp add: setitem_def)
next
  case (Some j)
  then have "name \<in> set (columns t)" using col_pos_None_iff [of name "columns t"] by auto
  with Some show ?thesis by (simp add: setitem_def)
qed

lemma wf_setitem: "wf_table t \<Longrightarrow> wf_table (setitem t name vals)"
  by (auto simp: setitem_def wf_table_def list_all_iff col_pos_None_iff split: option.splits dest!: set_zip_leftD)


lemma copy_simp: "copy st df = (st @ [st ! df], length st)"
  by (simp add: copy_def alloc_def)

lemma categorize_cell_num:
  "num_of c = Inr s \<Longrightarrow> categorize_cell neg pos c = Inr (IntC (categorize neg pos s))"
  by (simp add: categorize_cell_def)

lemma apply_series_categorize:
  "apply_series num_of cells = Inr scores \<Longrightarrow>
   apply_series (categorize_cell neg pos) cells = Inr (map (\<lambda>s. IntC (categorize neg pos s)) scores)"
  by (induction cells arbitrary: scores) (auto split: sum.splits simp: categorize_cell_def)

section \<open>Sentiment categories\<close>

text \<open>
  Claim C10. The categorisation is a total function of the score and the two thresholds,
  whatever their order: every score gets exactly one of the categories -1, 0 and 1, and
  a score that is both at most the negative threshold and at least the positive one gets
  -1, the negative branch being tested first.
\<close>

theorem categorize_total_negative_first:
  "categorize neg pos score \<in> {- 1, 0, 1} \<and>
   (fle score neg \<and> fge score pos \<longrightarrow> categorize neg pos score = - 1)"
  by (simp add: categorize_def)

theorem categorize_total_negative_first_witness:
  "fle (Fin (1 / 2)) (Fin 1) \<and> fge (Fin (1 / 2)) (Fin 0) \<and> flt (Fin 0) (Fin 1) \<and>
   categorize (Fin 1) (Fin 0) (Fin (1 / 2)) = - 1"
  using categorize_total_negative_first [of "Fin 1" "Fin 0" "Fin (1 / 2)"]
  by (simp add: fge_def flt_def)

text \<open>
  Claim C1, amended. For a frame with a numeric \<^verbatim>\<open>sentiment\<close> column and thresholds with
  the negative one at most the positive one, \<^verbatim>\<open>add_sentiment_category\<close> returns a new frame
  whose \<^verbatim>\<open>sentiment_category\<close> column has, row by row: -1 for a score at most the negative
  threshold; 1 for a score at least the positive threshold that is not also at most the
  negative one; 0 for a score strictly between the thresholds.
\<close>

theorem add_sentiment_category_rows:
  assumes "df < length st" and "wf_table (st ! df)"
    and "getitem (st ! df) ''sentiment'' = Inr cells"
    and "apply_series num_of cells = Inr scores"
    and "fle neg pos"
  shows "\<exists>st' cats. add_sentiment_category st df neg pos = (st', Inr (length st)) \<and>
           getitem (st' ! length st) ''sentiment_category'' = Inr (map IntC cats) \<and>
           length cats = length (rows (st ! df)) \<and> length scores = length cats \<and>
           (\<forall>k < length cats.
              (fle (scores ! k) neg \<longrightarrow> cats ! k = - 1) \<and>
              (fge (scores ! k) pos \<and> \<not> fle (scores ! k) neg \<longrightarrow> cats ! k = 1) \<and>
              (flt neg (scores ! k) \<and> flt (scores ! k) pos \<longrightarrow> cats ! k = 0))"
proof -
  let ?cats = "map (categorize neg pos) scores"
  let ?t = "setitem (st ! df) ''sentiment_category'' (map IntC ?cats)"
  have len: "length scores = length (rows (st ! df))"
    using assms(3,4) apply_series_length getitem_length by fastforce
  have ap: "apply_series (categorize_cell neg pos) cells = Inr (map IntC ?cats)"
    using apply_series_categorize [OF assms(4)] by (simp add: comp_def)
  have run: "add_sentiment_category st df neg pos = (st @ [?t], Inr (length st))"
    using assms(3) ap by (simp add: add_sentiment_category_def copy_simp)
  have col: "getitem ((st @ [?t]) ! length st) ''sentiment_category'' = Inr (map IntC ?cats)"
    using getitem_setitem_same [OF assms(2), of "map IntC ?cats"] len by simp
  have each: "\<forall>k < length ?cats.
              (fle (scores ! k) neg \<longrightarrow> ?cats ! k = - 1) \<and>
              (fge (scores ! k) pos \<and> \<not> fle (scores ! k) neg \<longrightarrow> ?cats ! k = 1) \<and>
              (flt neg (scores ! k) \<and> flt (scores ! k) pos \<longrightarrow> ?cats ! k = 0)"
    by (simp add: categorize_def flt_def fge_def)
  from run col len each show ?thesis
    by (intro exI [of _ "st @ [?t]"] exI [of _ ?cats]) simp
qed


theorem add_sentiment_category_rows_witness:
  "0 < length [sentiment_example] \<and> wf_table ([sentiment_example] ! 0) \<and>
   getitem ([sentiment_example] ! 0) ''sentiment'' =
     Inr [Flt (Fin (- (3602879701896397 / 72057594037927936))),
          Flt (Fin (3602879701896397 / 72057594037927936)),
          Flt (Fin 0),
          Flt (Fin (- (3602879701896397 / 18014398509481984))),
          Flt (Fin (3602879701896397 / 18014398509481984))] \<and>
   fle (Fin (- (3602879701896397 / 72057594037927936))) (Fin (3602879701896397 / 72057594037927936)) \<and>
   getitem (fst (add_sentiment_category [sentiment_example] 0
       (Fin (- (3602879701896397 / 72057594037927936)))
       (Fin (3602879701896397 / 72057594037927936))) ! 1) ''sentiment_category'' =
     Inr [IntC (- 1), IntC 1, IntC 0, IntC (- 1), IntC 1]"
  using add_sentiment_category_rows [of 0 "[sentiment_example]"
      "[Flt (Fin (- (3602879701896397 / 72057594037927936))),
          Flt (Fin (3602879701896397 / 72057594037927936)),
          Flt (Fin 0),
          Flt (Fin (- (3602879701896397 / 18014398509481984))),
          Flt (Fin (3602879701896397 / 18014398509481984))]"
      "[Fin (- (3602879701896397 / 72057594037927936)),
          Fin (3602879701896397 / 72057594037927936),
          Fin 0,
          Fin (- (3602879701896397 / 18014398509481984)),
          Fin (3602879701896397 / 18014398509481984)]"
      "Fin (- (3602879701896397 / 72057594037927936))"
      "Fin (3602879701896397 / 72057594037927936)"]
  by (simp add: sentiment_example_def wf_table_def getitem_def setitem_def
      add_sentiment_category_def copy_def alloc_def categorize_cell_def categorize_def fge_def)

text \<open>
  As first stated, the claim gives category 1 to every score at least the positive
  threshold. With both thresholds 0 and the score 0 the negative branch wins: the
  category is -1.
\<close>

theorem boundary_tie_counterexample:
  "fle (Fin 0) (Fin 0) \<and>
   getitem tie_example ''sentiment'' = Inr [Flt (Fin 0)] \<and>
   fge (Fin 0) (Fin 0) \<and>
   snd (add_sentiment_category [tie_example] 0 (Fin 0) (Fin 0)) = Inr 1 \<and>
   getitem (fst (add_sentiment_category [tie_example] 0 (Fin 0) (Fin 0)) ! 1) ''sentiment_category''
     = Inr [IntC (- 1)] \<and>
   getitem (fst (add_sentiment_category [tie_example] 0 (Fin 0) (Fin 0)) ! 1) ''sentiment_category''
     \<noteq> Inr [IntC 1]"
  by (simp add: tie_example_def getitem_def setitem_def
      add_sentiment_category_def copy_def alloc_def categorize_cell_def categorize_def fge_def)

section \<open>The sentiment functions copy their input\<close>

lemma apply_series_polarity:
  "list_all (\<lambda>c. \<exists>q. c = Str q) cells \<Longrightarrow>
   \<exists>scores. apply_series (polarity_cell sid) cells = Inr scores"
  by (induction cells) (auto simp: polarity_cell_def)

lemma store_update_new:
  "take (length st) ((st @ [t])[length st := u]) = st \<and>
   (st @ [t])[length st := u] ! length st = u"
  by simp

lemma add_sentiment_category_frame:
  assumes "df < length st" and "wf_table (st ! df)"
    and "add_sentiment_category st df neg pos = (st', r)"
  shows "take (length st) st' = st \<and> st' ! df = st ! df \<and>
         (\<forall>c. r = Inr c \<longrightarrow> c = length st \<and> c \<noteq> df \<and>
            (\<exists>cats. length cats = length (rows (st ! df)) \<and>
               st' ! c = setitem (st ! df) ''sentiment_category'' cats \<and>
               getitem (st' ! c) ''sentiment_category'' = Inr cats) \<and>
            map fst (rows (st' ! c)) = map fst (rows (st ! df)) \<and>
            (\<forall>name. name \<noteq> ''sentiment_category'' \<longrightarrow>
               getitem (st' ! c) name = getitem (st ! df) name))"
proof (cases "getitem (st ! df) ''sentiment''")
  case (Inl e)
  with assms show ?thesis
    by (auto simp: add_sentiment_category_def copy_simp nth_append)
next
  case (Inr scores)
  note sc = Inr
  show ?thesis
  proof (cases "apply_series (categorize_cell neg pos) scores")
    case (Inl e)
    with sc assms show ?thesis
      by (auto simp: add_sentiment_category_def copy_simp nth_append)
  next
    case (Inr cats)
    let ?t = "setitem (st ! df) ''sentiment_category'' cats"
    have len: "length cats = length (rows (st ! df))"
      using Inr sc apply_series_length getitem_length by fastforce
    have res: "st' = st @ [?t]" "r = Inr (length st)"
      using assms(3) sc Inr by (auto simp: add_sentiment_category_def copy_simp)
    have a: "getitem ?t ''sentiment_category'' = Inr cats"
      using getitem_setitem_same [OF assms(2) len] .
    have b: "map fst (rows ?t) = map fst (rows (st ! df))"
      using setitem_index [OF len] .
    have c: "\<forall>name. name \<noteq> ''sentiment_category'' \<longrightarrow> getitem ?t name = getitem (st ! df) name"
      using getitem_setitem_other [OF assms(2) len] by blast
    from res a b c len assms(1) show ?thesis
      by (auto simp: nth_append)
  qed
qed

lemma add_polarity_score_frame:
  assumes "df < length st" and "wf_table (st ! df)"
    and "add_polarity_score_to_df sid st df = (st', r)"
  shows "take (length st) st' = st \<and> st' ! df = st ! df \<and>
         (\<forall>c. r = Inr c \<longrightarrow> c = length st \<and> c \<noteq> df \<and>
            (\<exists>scores. length scores = length (rows (st ! df)) \<and>
               st' ! c = setitem (st ! df) ''sentiment'' scores \<and>
               getitem (st' ! c) ''sentiment'' = Inr scores) \<and>
            map fst (rows (st' ! c)) = map fst (rows (st ! df)) \<and>
            (\<forall>name. name \<noteq> ''sentiment'' \<longrightarrow>
               getitem (st' ! c) name = getitem (st ! df) name))"
proof (cases "getitem (st ! df) ''quotation''")
  case (Inl e)
  with assms show ?thesis
    by (auto simp: add_polarity_score_to_df_def copy_simp nth_append)
next
  case (Inr quotations)
  note qs = Inr
  show ?thesis
  proof (cases "apply_series (polarity_cell sid) quotations")
    case (Inl e)
    with qs assms show ?thesis
      by (auto simp: add_polarity_score_to_df_def copy_simp nth_append)
  next
    case (Inr scores)
    let ?t = "setitem (st ! df) ''sentiment'' scores"
    have len: "length scores = length (rows (st ! df))"
      using Inr qs apply_series_length getitem_length by fastforce
    have res: "st' = st @ [?t]" "r = Inr (length st)"
      using assms(3) qs Inr by (auto simp: add_polarity_score_to_df_def copy_simp)
    have a: "getitem ?t ''sentiment'' = Inr scores"
      using getitem_setitem_same [OF assms(2) len] .
    have b: "map fst (rows ?t) = map fst (rows (st ! df))"
      using setitem_index [OF len] .
    have c: "\<forall>name. name \<noteq> ''sentiment'' \<longrightarrow> getitem ?t name = getitem (st ! df) name"
      using getitem_setitem_other [OF assms(2) len] by blast
    from res a b c len assms(1) show ?thesis
      by (auto simp: nth_append)
  qed
qed

lemma add_sentiment_category_returns:
  assumes "getitem (st ! df) ''sentiment'' = Inr cells"
    and "apply_series num_of cells = Inr scores"
  shows "snd (add_sentiment_category st df neg pos) = Inr (length st)"
  using assms(1) apply_series_categorize [OF assms(2), of neg pos]
  by (simp add: add_sentiment_category_def copy_simp)

lemma add_polarity_score_returns:
  assumes "getitem (st ! df) ''quotation'' = Inr cells"
    and "list_all (\<lambda>c. \<exists>q. c = Str q) cells"
  shows "snd (add_polarity_score_to_df sid st df) = Inr (length st)"
proof -
  obtain scores where "apply_series (polarity_cell sid) cells = Inr scores"
    using apply_series_polarity [OF assms(2)] by blast
  with assms(1) show ?thesis
    by (simp add: add_polarity_score_to_df_def copy_simp)
qed


text \<open>
  Claim C7. \<^verbatim>\<open>add_sentiment_category\<close> and \<^verbatim>\<open>add_polarity_score_to_df\<close> work on a copy.
  Whatever the call does, every frame that was in the store, the input among them, is
  the same afterwards. When the call returns, the result is a new object: the input with
  the column \<^verbatim>\<open>sentiment_category\<close> (respectively \<^verbatim>\<open>sentiment\<close>) set, every other column
  and the index as in the input. It returns whenever the column it reads is there and
  holds numbers (respectively texts).
\<close>

theorem sentiment_functions_copy_input:
  assumes "df < length st" and "wf_table (st ! df)"
  shows "(\<forall>st' r. add_sentiment_category st df neg pos = (st', r) \<longrightarrow>
           take (length st) st' = st \<and> st' ! df = st ! df \<and>
           (\<forall>c. r = Inr c \<longrightarrow> c = length st \<and> c \<noteq> df \<and>
              (\<exists>cats. length cats = length (rows (st ! df)) \<and>
                 st' ! c = setitem (st ! df) ''sentiment_category'' cats \<and>
                 getitem (st' ! c) ''sentiment_category'' = Inr cats) \<and>
              map fst (rows (st' ! c)) = map fst (rows (st ! df)) \<and>
              (\<forall>name. name \<noteq> ''sentiment_category'' \<longrightarrow>
                 getitem (st' ! c) name = getitem (st ! df) name))) \<and>
         (\<forall>st' r. add_polarity_score_to_df sid st df = (st', r) \<longrightarrow>
           take (length st) st' = st \<and> st' ! df = st ! df \<and>
           (\<forall>c. r = Inr c \<longrightarrow> c = length st \<and> c \<noteq> df \<and>
              (\<exists>scores. length scores = length (rows (st ! df)) \<and>
                 st' ! c = setitem (st ! df) ''sentiment'' scores \<and>
                 getitem (st' ! c) ''sentiment'' = Inr scores) \<and>
              map fst (rows (st' ! c)) = map fst (rows (st ! df)) \<and>
              (\<forall>name. name \<noteq> ''sentiment'' \<longrightarrow>
                 getitem (st' ! c) name = getitem (st ! df) name))) \<and>
         (\<forall>cells scores. getitem (st ! df) ''sentiment'' = Inr cells \<and>
              apply_series num_of cells = Inr scores \<longrightarrow>
            snd (add_sentiment_category st df neg pos) = Inr (length st)) \<and>
         (\<forall>cells. getitem (st ! df) ''quotation'' = Inr cells \<and>
              list_all (\<lambda>c. \<exists>q. c = Str q) cells \<longrightarrow>
            snd (add_polarity_score_to_df sid st df) = Inr (length st))"
proof -
  have a: "\<forall>st' r. add_sentiment_category st df neg pos = (st', r) \<longrightarrow>
           take (length st) st' = st \<and> st' ! df = st ! df \<and>
           (\<forall>c. r = Inr c \<longrightarrow> c = length st \<and> c \<noteq> df \<and>
              (\<exists>cats. length cats = length (rows (st ! df)) \<and>
                 st' ! c = setitem (st ! df) ''sentiment_category'' cats \<and>
                 getitem (st' ! c) ''sentiment_category'' = Inr cats) \<and>
              map fst (rows (st' ! c)) = map fst (rows (st ! df)) \<and>
              (\<forall>name. name \<noteq> ''sentiment_category'' \<longrightarrow>
                 getitem (st' ! c) name = getitem (st ! df) name))"
    by (intro allI impI) (rule add_sentiment_category_frame [OF assms])
  have b: "\<forall>st' r. add_polarity_score_to_df sid st df = (st', r) \<longrightarrow>
           take (length st) st' = st \<and> st' ! df = st ! df \<and>
           (\<forall>c. r = Inr c \<longrightarrow> c = length st \<and> c \<noteq> df \<and>
              (\<exists>scores. length scores = length (rows (st ! df)) \<and>
                 st' ! c = setitem (st ! df) ''sentiment'' scores \<and>
                 getitem (st' ! c) ''sentiment'' = Inr scores) \<and>
              map fst (rows (st' ! c)) = map fst (rows (st ! df)) \<and>
              (\<forall>name. name \<noteq> ''sentiment'' \<longrightarrow>
                 getitem (st' ! c) name = getitem (st ! df) name))"
    by (intro allI impI) (rule add_polarity_score_frame [OF assms])
  have c: "\<forall>cells scores. getitem (st ! df) ''sentiment'' = Inr cells \<and>
              apply_series num_of cells = Inr scores \<longrightarrow>
            snd (add_sentiment_category st df neg pos) = Inr (length st)"
    using add_sentiment_category_returns by blast
  have d: "\<forall>cells. getitem (st ! df) ''quotation'' = Inr cells \<and>
              list_all (\<lambda>c. \<exists>q. c = Str q) cells \<longrightarrow>
            snd (add_polarity_score_to_df sid st df) = Inr (length st)"
    using add_polarity_score_returns by blast
  show ?thesis
    by (rule conjI [OF a conjI [OF b conjI [OF c d]]])
qed

theorem sentiment_functions_copy_input_witness:
  "0 < length [quotes_example, sentiment_example] \<and>
   1 < length [quotes_example, sentiment_example] \<and>
   wf_table ([quotes_example, sentiment_example] ! 0) \<and>
   wf_table ([quotes_example, sentiment_example] ! 1) \<and>
   add_polarity_score_to_df example_sid [quotes_example, sentiment_example] 0 =
     ([quotes_example, sentiment_example,
       \<lparr>columns = [''quoteID'', ''quotation'', ''sentiment''],
        rows = [(0, [Str ''q0'', Str ''great news'', Flt (Fin (3 / 4))]),
                (1, [Str ''q1'', Str ''a report'', Flt (Fin 0)])]\<rparr>], Inr 2) \<and>
   add_sentiment_category [quotes_example, sentiment_example] 0 (Fin (- 1)) (Fin 1) =
     ([quotes_example, sentiment_example, quotes_example], Inl KeyError) \<and>
   fst (add_sentiment_category [quotes_example, sentiment_example] 1 (Fin 0) (Fin 0)) ! 1 =
     sentiment_example \<and>
   snd (add_sentiment_category [quotes_example, sentiment_example] 1 (Fin 0) (Fin 0)) = Inr 2 \<and>
   columns (fst (add_sentiment_category [quotes_example, sentiment_example] 1 (Fin 0) (Fin 0)) ! 2) =
     [''quoteID'', ''sentiment'', ''sentiment_category'']"
proof -
  let ?st = "[quotes_example, sentiment_example]"
  have l: "1 < length ?st" by simp
  have w0: "wf_table (?st ! 0)" by (simp add: quotes_example_def wf_table_def)
  have w1: "wf_table (?st ! 1)" by (simp add: sentiment_example_def wf_table_def)
  have p: "add_polarity_score_to_df example_sid ?st 0 =
     ([quotes_example, sentiment_example,
       \<lparr>columns = [''quoteID'', ''quotation'', ''sentiment''],
        rows = [(0, [Str ''q0'', Str ''great news'', Flt (Fin (3 / 4))]),
                (1, [Str ''q1'', Str ''a report'', Flt (Fin 0)])]\<rparr>], Inr 2)"
    by (simp add: quotes_example_def example_sid_def getitem_def setitem_def
        add_polarity_score_to_df_def copy_def alloc_def polarity_cell_def)
  have k: "add_sentiment_category ?st 0 (Fin (- 1)) (Fin 1) =
     ([quotes_example, sentiment_example, quotes_example], Inl KeyError)"
    by (simp add: quotes_example_def getitem_def add_sentiment_category_def copy_def alloc_def)
  have c: "snd (add_sentiment_category ?st 1 (Fin 0) (Fin 0)) = Inr 2 \<and>
    columns (fst (add_sentiment_category ?st 1 (Fin 0) (Fin 0)) ! 2) =
     [''quoteID'', ''sentiment'', ''sentiment_category'']"
    by (simp add: sentiment_example_def getitem_def setitem_def add_sentiment_category_def
        copy_def alloc_def categorize_cell_def categorize_def fge_def)
  have "fst (add_sentiment_category ?st 1 (Fin 0) (Fin 0)) ! 1 = ?st ! 1"
    using sentiment_functions_copy_input [OF l w1, of "Fin 0" "Fin 0" example_sid]
      prod.collapse [of "add_sentiment_category ?st 1 (Fin 0) (Fin 0)"]
    by metis
  with l w0 w1 p k c show ?thesis by simp
qed

section \<open>The confidence filter\<close>

lemma match_here_Some_iff:
  "match_here s = Some m \<longleftrightarrow>
     (Suc 0 < length s \<and> is_digit (s ! 0) \<and> s ! Suc 0 = CHR ''.'' \<and>
      m = s ! 0 # CHR ''.'' # takeWhile is_digit (drop 2 s))"
  by (cases s rule: match_here.cases) auto

lemma match_here_None_iff:
  "match_here s = None \<longleftrightarrow> \<not> (Suc 0 < length s \<and> is_digit (s ! 0) \<and> s ! Suc 0 = CHR ''.'')"
  by (cases s rule: match_here.cases) auto

lemma re_search_None_iff: "re_search s = None \<longleftrightarrow> \<not> has_decimal s"
proof (induction s)
  case Nil
  then show ?case by (simp add: has_decimal_def)
next
  case (Cons c cs)
  show ?case
  proof (cases "match_here (c # cs)")
    case None
    then have no0: "\<not> (Suc 0 < length (c # cs) \<and> is_digit ((c # cs) ! 0) \<and> (c # cs) ! Suc 0 = CHR ''.'')"
      using match_here_None_iff [of "c # cs"] by blast
    have "has_decimal (c # cs) \<longleftrightarrow> has_decimal cs"
    proof
      assume "has_decimal (c # cs)"
      then obtain i where i: "Suc i < length (c # cs)" "is_digit ((c # cs) ! i)" "(c # cs) ! Suc i = CHR ''.''"
        by (auto simp: has_decimal_def)
      have "i \<noteq> 0"
      proof
        assume z: "i = 0"
        from i(1,2,3) have "Suc 0 < length (c # cs) \<and> is_digit ((c # cs) ! 0) \<and> (c # cs) ! Suc 0 = CHR ''.''"
          unfolding z by blast
        with no0 show False by blast
      qed
      then obtain j where "i = Suc j" using not0_implies_Suc by blast
      with i show "has_decimal cs" by (auto simp: has_decimal_def)
    next
      assume "has_decimal cs"
      then obtain i where "Suc i < length cs" "is_digit (cs ! i)" "cs ! Suc i = CHR ''.''"
        by (auto simp: has_decimal_def)
      then have "Suc (Suc i) < length (c # cs) \<and> is_digit ((c # cs) ! Suc i) \<and> (c # cs) ! Suc (Suc i) = CHR ''.''"
        by simp
      then show "has_decimal (c # cs)" unfolding has_decimal_def by blast
    qed
    with None Cons show ?thesis by simp
  next
    case (Some m)
    then have "Suc 0 < length (c # cs) \<and> is_digit ((c # cs) ! 0) \<and> (c # cs) ! Suc 0 = CHR ''.''"
      using match_here_Some_iff [of "c # cs" m] by blast
    then have "has_decimal (c # cs)" unfolding has_decimal_def by blast
    with Some show ?thesis by simp
  qed
qed

lemma re_search_Some_iff: "re_search s = Some m \<longleftrightarrow> first_decimal s m"
proof (induction s)
  case Nil
  then show ?case by (simp add: first_decimal_def)
next
  case (Cons c cs)
  show ?case
  proof (cases "match_here (c # cs)")
    case None
    then have no0: "\<not> (Suc 0 < length (c # cs) \<and> is_digit ((c # cs) ! 0) \<and> (c # cs) ! Suc 0 = CHR ''.'')"
      using match_here_None_iff [of "c # cs"] by blast
    have "first_decimal (c # cs) m \<longleftrightarrow> first_decimal cs m"
    proof
      assume "first_decimal (c # cs) m"
      then obtain i where i: "Suc i < length (c # cs)" "is_digit ((c # cs) ! i)"
          "(c # cs) ! Suc i = CHR ''.''"
          "\<forall>j<i. \<not> (is_digit ((c # cs) ! j) \<and> (c # cs) ! Suc j = CHR ''.'')"
          "m = (c # cs) ! i # CHR ''.'' # takeWhile is_digit (drop (i + 2) (c # cs))"
        unfolding first_decimal_def by blast
      have "i \<noteq> 0"
      proof
        assume z: "i = 0"
        from i(1,2,3) have "Suc 0 < length (c # cs) \<and> is_digit ((c # cs) ! 0) \<and> (c # cs) ! Suc 0 = CHR ''.''"
          unfolding z by blast
        with no0 show False by blast
      qed
      then obtain k where k: "i = Suc k" using not0_implies_Suc by blast
      have "\<forall>j<k. \<not> (is_digit (cs ! j) \<and> cs ! Suc j = CHR ''.'')"
      proof (intro allI impI)
        fix j assume "j < k"
        then have "Suc j < i" using k by simp
        with i(4) show "\<not> (is_digit (cs ! j) \<and> cs ! Suc j = CHR ''.'')" by fastforce
      qed
      with i k show "first_decimal cs m"
        unfolding first_decimal_def by (intro exI [of _ k]) simp
    next
      assume "first_decimal cs m"
      then obtain i where i: "Suc i < length cs" "is_digit (cs ! i)" "cs ! Suc i = CHR ''.''"
          "\<forall>j<i. \<not> (is_digit (cs ! j) \<and> cs ! Suc j = CHR ''.'')"
          "m = cs ! i # CHR ''.'' # takeWhile is_digit (drop (i + 2) cs)"
        unfolding first_decimal_def by blast
      have "\<forall>j<Suc i. \<not> (is_digit ((c # cs) ! j) \<and> (c # cs) ! Suc j = CHR ''.'')"
      proof (intro allI impI)
        fix j assume j: "j < Suc i"
        show "\<not> (is_digit ((c # cs) ! j) \<and> (c # cs) ! Suc j = CHR ''.'')"
        proof (cases j)
          case 0
          with no0 i(1) show ?thesis by auto
        next
          case (Suc l)
          with j i(4) show ?thesis by simp
        qed
      qed
      with i show "first_decimal (c # cs) m"
        unfolding first_decimal_def by (intro exI [of _ "Suc i"]) simp
    qed
    with None Cons show ?thesis by simp
  next
    case (Some m')
    then have m': "Suc 0 < length (c # cs)" "is_digit ((c # cs) ! 0)" "(c # cs) ! Suc 0 = CHR ''.''"
        "m' = (c # cs) ! 0 # CHR ''.'' # takeWhile is_digit (drop 2 (c # cs))"
      using match_here_Some_iff [of "c # cs" m'] by blast+
    have "first_decimal (c # cs) m \<longleftrightarrow> m = m'"
    proof
      assume "first_decimal (c # cs) m"
      then obtain i where i: "Suc i < length (c # cs)"
          "\<forall>j<i. \<not> (is_digit ((c # cs) ! j) \<and> (c # cs) ! Suc j = CHR ''.'')"
          "m = (c # cs) ! i # CHR ''.'' # takeWhile is_digit (drop (i + 2) (c # cs))"
        unfolding first_decimal_def by blast
      have "i = 0"
      proof (rule ccontr)
        assume "i \<noteq> 0"
        then have "0 < i" by simp
        with i(2) m'(2,3) show False by blast
      qed
      with i(3) m'(4) show "m = m'" by simp
    next
      assume "m = m'"
      with m' show "first_decimal (c # cs) m"
        unfolding first_decimal_def by (intro exI [of _ 0]) simp
    qed
    with Some show ?thesis by auto
  qed
qed

lemma filter_mask_nths:
  "length ks = length xs \<Longrightarrow>
   map fst (filter snd (zip xs ks)) = nths xs {i. i < length ks \<and> ks ! i}"
proof (induction xs arbitrary: ks)
  case Nil
  then show ?case by simp
next
  case (Cons x xs)
  then obtain k ks' where ks: "ks = k # ks'" by (cases ks) auto
  with Cons.prems have len: "length ks' = length xs" by simp
  have "{j. Suc j \<in> {i. i < length ks \<and> ks ! i}} = {i. i < length ks' \<and> ks' ! i}"
    using ks by auto
  then show ?case
    using Cons.IH [OF len] ks by (simp add: nths_Cons)
qed

lemma astype_extract:
  "astype_float to_float (str_extract c) = Flt (probasE_cell to_float c)"
  by (simp add: astype_float_def str_extract_def probasE_cell_def split: cell.splits option.splits)

lemma apply_series_ge:
  "apply_series (ge_cell cutoff) (map Flt fs) = Inr (map (\<lambda>f. fge f cutoff) fs)"
  by (induction fs) (simp_all add: ge_cell_def)

lemma high_probability_quotes_run:
  assumes "df < length st" and "wf_table (st ! df)"
    and "getitem (st ! df) ''probas'' = Inr cells" and "str_accessor_ok cells"
  shows "high_probability_quotes to_float st df cutoff =
           (st[df := setitem (st ! df) ''probasE'' (map (\<lambda>c. Flt (probasE_cell to_float c)) cells)]
              @ [loc_mask (setitem (st ! df) ''probasE'' (map (\<lambda>c. Flt (probasE_cell to_float c)) cells))
                   (map (\<lambda>c. fge (probasE_cell to_float c) cutoff) cells)],
            Inr (length st))"
proof -
  let ?vals = "map (\<lambda>c. Flt (probasE_cell to_float c)) cells"
  let ?t1 = "setitem (st ! df) ''probasE'' ?vals"
  have len: "length ?vals = length (rows (st ! df))"
    using assms(3) getitem_length by fastforce
  have g: "getitem ?t1 ''probasE'' = Inr ?vals"
    using getitem_setitem_same [OF assms(2) len] .
  have a: "apply_series (ge_cell cutoff) ?vals
             = Inr (map (\<lambda>c. fge (probasE_cell to_float c) cutoff) cells)"
    using apply_series_ge [of cutoff "map (probasE_cell to_float) cells"]
    by (simp add: comp_def)
  show ?thesis
    using assms(1,3,4) g a
    by (simp add: high_probability_quotes_def astype_extract alloc_def Let_def)
qed

lemma fge_NaN [simp]: "fge NaN x = False"
  by (cases x) (simp_all add: fge_def)

lemma probasE_cell_ge_iff:
  "fge (probasE_cell to_float c) cutoff \<longleftrightarrow>
     (\<exists>s m. c = Str s \<and> first_decimal s m \<and> fge (to_float m) cutoff)"
  by (cases c) (auto simp: probasE_cell_def re_search_Some_iff [symmetric] split: option.splits)

lemma probasE_cell_decimal:
  "c = Str s \<Longrightarrow> first_decimal s m \<Longrightarrow> probasE_cell to_float c = to_float m"
  by (simp add: probasE_cell_def re_search_Some_iff [symmetric])

lemma probasE_cell_missing:
  "(\<forall>s. c = Str s \<longrightarrow> \<not> has_decimal s) \<Longrightarrow> probasE_cell to_float c = NaN"
  by (cases c) (auto simp: probasE_cell_def re_search_None_iff [symmetric] split: option.splits)

text \<open>
  Claim C2. For a frame whose \<^verbatim>\<open>probas\<close> column is of strings, \<^verbatim>\<open>high_probability_quotes\<close>
  returns a new frame. The column \<^verbatim>\<open>probasE\<close> holds, row by row, the float of the first
  decimal number of the \<^verbatim>\<open>probas\<close> string (a digit, a dot, the digits that follow), and a
  missing value where the string has none. The result has exactly the rows whose value is
  at least the cutoff, in their order; a row with a missing value is never among them.
\<close>

theorem high_probability_quotes_keeps:
  assumes "df < length st" and "wf_table (st ! df)"
    and "getitem (st ! df) ''probas'' = Inr cells" and "str_accessor_ok cells"
  shows "\<exists>st' probasE.
           high_probability_quotes to_float st df cutoff = (st', Inr (length st)) \<and>
           getitem (st' ! df) ''probasE'' = Inr (map Flt probasE) \<and>
           length probasE = length cells \<and>
           (\<forall>k<length cells.
              (\<forall>s m. cells ! k = Str s \<and> first_decimal s m \<longrightarrow> probasE ! k = to_float m) \<and>
              ((\<forall>s. cells ! k = Str s \<longrightarrow> \<not> has_decimal s) \<longrightarrow>
                 probasE ! k = NaN \<and> \<not> fge (probasE ! k) cutoff)) \<and>
           map fst (rows (st' ! df)) = map fst (rows (st ! df)) \<and>
           (\<forall>name. name \<noteq> ''probasE'' \<longrightarrow> getitem (st' ! df) name = getitem (st ! df) name) \<and>
           rows (st' ! length st) =
             nths (rows (st' ! df)) {k. k < length cells \<and> fge (probasE ! k) cutoff} \<and>
           {k. k < length cells \<and> fge (probasE ! k) cutoff} =
             {k. k < length cells \<and>
                 (\<exists>s m. cells ! k = Str s \<and> first_decimal s m \<and> fge (to_float m) cutoff)}"
proof -
  let ?pe = "map (probasE_cell to_float) cells"
  let ?vals = "map (\<lambda>c. Flt (probasE_cell to_float c)) cells"
  let ?t1 = "setitem (st ! df) ''probasE'' ?vals"
  let ?keep = "map (\<lambda>c. fge (probasE_cell to_float c) cutoff) cells"
  let ?st' = "st[df := ?t1] @ [loc_mask ?t1 ?keep]"
  have len: "length ?vals = length (rows (st ! df))"
    using assms(3) getitem_length by fastforce
  have run: "high_probability_quotes to_float st df cutoff = (?st', Inr (length st))"
    using high_probability_quotes_run [OF assms] .
  have at_df: "?st' ! df = ?t1" and at_new: "?st' ! length st = loc_mask ?t1 ?keep"
    using assms(1) by (simp_all add: nth_append)
  have g: "getitem ?t1 ''probasE'' = Inr (map Flt ?pe)"
    using getitem_setitem_same [OF assms(2) len] by (simp add: comp_def)
  have each: "\<forall>k<length cells.
              (\<forall>s m. cells ! k = Str s \<and> first_decimal s m \<longrightarrow> ?pe ! k = to_float m) \<and>
              ((\<forall>s. cells ! k = Str s \<longrightarrow> \<not> has_decimal s) \<longrightarrow>
                 ?pe ! k = NaN \<and> \<not> fge (?pe ! k) cutoff)"
    using probasE_cell_decimal probasE_cell_missing by (auto simp del: fge_NaN) (simp_all)
  have idx: "map fst (rows ?t1) = map fst (rows (st ! df))"
    using setitem_index [OF len] .
  have oth: "\<forall>name. name \<noteq> ''probasE'' \<longrightarrow> getitem ?t1 name = getitem (st ! df) name"
    using getitem_setitem_other [OF assms(2) len] by blast
  have lr: "length ?keep = length (rows ?t1)"
    using idx len by (metis length_map)
  have K: "{i. i < length ?keep \<and> ?keep ! i} = {k. k < length cells \<and> fge (?pe ! k) cutoff}"
    by auto
  have rws: "rows (loc_mask ?t1 ?keep) = nths (rows ?t1) {k. k < length cells \<and> fge (?pe ! k) cutoff}"
    using filter_mask_nths [OF lr] K by (simp add: loc_mask_def)
  have S: "{k. k < length cells \<and> fge (?pe ! k) cutoff} =
             {k. k < length cells \<and>
                 (\<exists>s m. cells ! k = Str s \<and> first_decimal s m \<and> fge (to_float m) cutoff)}"
    using probasE_cell_ge_iff by auto
  show ?thesis
    apply (rule exI [of _ ?st'])
    apply (rule exI [of _ ?pe])
    unfolding at_df at_new
    using run g each idx oth rws S by simp
qed

text \<open>
  Claim C9. \<^verbatim>\<open>high_probability_quotes\<close> does not copy: after the call the caller's frame
  itself has the column \<^verbatim>\<open>probasE\<close>, so it differs from what it was when it had no such
  column. The returned frame is a new object with the same columns, \<^verbatim>\<open>probasE\<close> among them
  beside the original ones. No other frame of the store changes.
\<close>

theorem high_probability_quotes_mutates_input:
  assumes "df < length st" and "wf_table (st ! df)"
    and "getitem (st ! df) ''probas'' = Inr cells" and "str_accessor_ok cells"
  shows "\<exists>st' probasE.
           high_probability_quotes to_float st df cutoff = (st', Inr (length st)) \<and>
           length st' = Suc (length st) \<and> length st \<noteq> df \<and>
           length probasE = length (rows (st ! df)) \<and>
           st' ! df = setitem (st ! df) ''probasE'' probasE \<and>
           getitem (st' ! df) ''probasE'' = Inr probasE \<and>
           columns (st' ! df) =
             (if ''probasE'' \<in> set (columns (st ! df)) then columns (st ! df)
              else columns (st ! df) @ [''probasE'']) \<and>
           (''probasE'' \<notin> set (columns (st ! df)) \<longrightarrow> st' ! df \<noteq> st ! df) \<and>
           columns (st' ! length st) = columns (st' ! df) \<and>
           set (columns (st ! df)) \<subseteq> set (columns (st' ! length st)) \<and>
           ''probasE'' \<in> set (columns (st' ! length st)) \<and>
           (\<forall>r<length st. r \<noteq> df \<longrightarrow> st' ! r = st ! r)"
proof -
  let ?vals = "map (\<lambda>c. Flt (probasE_cell to_float c)) cells"
  let ?t1 = "setitem (st ! df) ''probasE'' ?vals"
  let ?keep = "map (\<lambda>c. fge (probasE_cell to_float c) cutoff) cells"
  let ?st' = "st[df := ?t1] @ [loc_mask ?t1 ?keep]"
  have len: "length ?vals = length (rows (st ! df))"
    using assms(3) getitem_length by fastforce
  have run: "high_probability_quotes to_float st df cutoff = (?st', Inr (length st))"
    using high_probability_quotes_run [OF assms] .
  have at_df: "?st' ! df = ?t1" and at_new: "?st' ! length st = loc_mask ?t1 ?keep"
    using assms(1) by (simp_all add: nth_append)
  have g: "getitem ?t1 ''probasE'' = Inr ?vals"
    using getitem_setitem_same [OF assms(2) len] .
  have cols: "columns ?t1 =
             (if ''probasE'' \<in> set (columns (st ! df)) then columns (st ! df)
              else columns (st ! df) @ [''probasE''])"
    using setitem_columns .
  have neq: "''probasE'' \<notin> set (columns (st ! df)) \<longrightarrow> ?t1 \<noteq> st ! df"
  proof
    assume "''probasE'' \<notin> set (columns (st ! df))"
    with cols have "columns ?t1 \<noteq> columns (st ! df)" by simp
    then show "?t1 \<noteq> st ! df" by metis
  qed
  have mc: "columns (loc_mask ?t1 ?keep) = columns ?t1"
    by (simp add: loc_mask_def)
  have sub: "set (columns (st ! df)) \<subseteq> set (columns ?t1)" and mem: "''probasE'' \<in> set (columns ?t1)"
    using cols by (auto split: if_splits)
  have others: "\<forall>r<length st. r \<noteq> df \<longrightarrow> ?st' ! r = st ! r"
    by (simp add: nth_append)
  show ?thesis
    apply (rule exI [of _ ?st'])
    apply (rule exI [of _ ?vals])
    unfolding at_df at_new mc
    using run len g cols neq sub mem others assms(1) by simp
qed

lemma float_085: "float_of_decimal ''0.85'' = Fin (7656119366529843 / 9007199254740992)"
  by code_simp

lemma float_05: "float_of_decimal ''0.5'' = Fin (1 / 2)"
  by code_simp

lemma search_examples:
  "re_search ''[('A', 0.85)]'' = Some ''0.85''"
  "re_search ''[('B', 0.5)]'' = Some ''0.5''"
  "re_search ''[]'' = None"
  by (simp_all add: is_digit_def)

lemma example_run:
  "high_probability_quotes float_of_decimal [probas_example] 0 (Fin (3602879701896397 / 4503599627370496)) =
     ([\<lparr>columns = [''quoteID'', ''probas'', ''probasE''],
        rows = [(0, [Str ''q0'', Str ''[('A', 0.85)]'', Flt (Fin (7656119366529843 / 9007199254740992))]),
                (1, [Str ''q1'', Str ''[('B', 0.5)]'', Flt (Fin (1 / 2))]),
                (2, [Str ''q2'', Str ''[]'', Flt NaN])]\<rparr>,
       \<lparr>columns = [''quoteID'', ''probas'', ''probasE''],
        rows = [(0, [Str ''q0'', Str ''[('A', 0.85)]'', Flt (Fin (7656119366529843 / 9007199254740992))])]\<rparr>],
      Inr 1)"
  by (simp add: high_probability_quotes_def probas_example_def getitem_def setitem_def
      str_accessor_ok_def str_extract_def astype_float_def search_examples float_085 float_05
      ge_cell_def fge_def alloc_def loc_mask_def
      del: re_search.simps)

lemma probas_example_hyps:
  "0 < length [probas_example]"
  "wf_table ([probas_example] ! 0)"
  "getitem ([probas_example] ! 0) ''probas'' =
     Inr [Str ''[('A', 0.85)]'', Str ''[('B', 0.5)]'', Str ''[]'']"
  "str_accessor_ok [Str ''[('A', 0.85)]'', Str ''[('B', 0.5)]'', Str ''[]'']"
  by (simp_all add: probas_example_def wf_table_def getitem_def str_accessor_ok_def)

theorem high_probability_quotes_keeps_witness:
  "0 < length [probas_example] \<and>
   wf_table ([probas_example] ! 0) \<and>
   getitem ([probas_example] ! 0) ''probas'' =
     Inr [Str ''[('A', 0.85)]'', Str ''[('B', 0.5)]'', Str ''[]''] \<and>
   str_accessor_ok [Str ''[('A', 0.85)]'', Str ''[('B', 0.5)]'', Str ''[]''] \<and>
   first_decimal ''[('A', 0.85)]'' ''0.85'' \<and>
   first_decimal ''[('B', 0.5)]'' ''0.5'' \<and>
   \<not> has_decimal ''[]'' \<and>
   snd (high_probability_quotes float_of_decimal [probas_example] 0
          (Fin (3602879701896397 / 4503599627370496))) = Inr (length [probas_example]) \<and>
   rows (fst (high_probability_quotes float_of_decimal [probas_example] 0
          (Fin (3602879701896397 / 4503599627370496))) ! 1) =
     [(0, [Str ''q0'', Str ''[('A', 0.85)]'', Flt (Fin (7656119366529843 / 9007199254740992))])]"
proof -
  obtain st' where "high_probability_quotes float_of_decimal [probas_example] 0
          (Fin (3602879701896397 / 4503599627370496)) = (st', Inr (length [probas_example]))"
    using high_probability_quotes_keeps [OF probas_example_hyps,
        of float_of_decimal "Fin (3602879701896397 / 4503599627370496)"]
    by blast
  then have r: "snd (high_probability_quotes float_of_decimal [probas_example] 0
          (Fin (3602879701896397 / 4503599627370496))) = Inr (length [probas_example])"
    by simp
  have d: "first_decimal ''[('A', 0.85)]'' ''0.85''" "first_decimal ''[('B', 0.5)]'' ''0.5''"
      "\<not> has_decimal ''[]''"
    using search_examples by (simp_all only: re_search_Some_iff [symmetric] re_search_None_iff [symmetric])
  show ?thesis
    using probas_example_hyps r d by (simp add: example_run)
qed

theorem high_probability_quotes_mutates_input_witness:
  "0 < length [probas_example] \<and>
   wf_table ([probas_example] ! 0) \<and>
   getitem ([probas_example] ! 0) ''probas'' =
     Inr [Str ''[('A', 0.85)]'', Str ''[('B', 0.5)]'', Str ''[]''] \<and>
   str_accessor_ok [Str ''[('A', 0.85)]'', Str ''[('B', 0.5)]'', Str ''[]''] \<and>
   length (fst (high_probability_quotes float_of_decimal [probas_example] 0
          (Fin (3602879701896397 / 4503599627370496)))) = Suc (length [probas_example]) \<and>
   columns probas_example = [''quoteID'', ''probas''] \<and>
   columns (fst (high_probability_quotes float_of_decimal [probas_example] 0
          (Fin (3602879701896397 / 4503599627370496))) ! 0) = [''quoteID'', ''probas'', ''probasE''] \<and>
   columns (fst (high_probability_quotes float_of_decimal [probas_example] 0
          (Fin (3602879701896397 / 4503599627370496))) ! 1) = [''quoteID'', ''probas'', ''probasE'']"
proof -
  obtain st' where "high_probability_quotes float_of_decimal [probas_example] 0
          (Fin (3602879701896397 / 4503599627370496)) = (st', Inr (length [probas_example]))"
      and "length st' = Suc (length [probas_example])"
    using high_probability_quotes_mutates_input [OF probas_example_hyps,
        of float_of_decimal "Fin (3602879701896397 / 4503599627370496)"]
    by blast
  then have l: "length (fst (high_probability_quotes float_of_decimal [probas_example] 0
          (Fin (3602879701896397 / 4503599627370496)))) = Suc (length [probas_example])"
    by simp
  have c: "columns probas_example = [''quoteID'', ''probas'']"
    by (simp add: probas_example_def)
  show ?thesis
    using probas_example_hyps l c by (simp add: example_run)
qed

section \<open>The directory scan and the speaker extraction\<close>

lemma startswith_iff: "startswith s p \<longleftrightarrow> (\<exists>rest. s = p @ rest)"
proof
  assume "startswith s p"
  then have "s = p @ drop (length p) s"
    by (metis append_take_drop_id startswith_def)
  then show "\<exists>rest. s = p @ rest" ..
next
  assume "\<exists>rest. s = p @ rest"
  then show "startswith s p" by (auto simp: startswith_def)
qed

lemma str_2020: "str_int 2020 = ''2020''"
  by (simp add: str_int_def str_nat.simps digit_char_def)

text \<open>
  Claim C5. When the directory can be listed, \<^verbatim>\<open>find_csv_filenames\<close> returns, in the order
  of the listing, exactly the names that are \<^verbatim>\<open>quotes-\<close>, the year, \<^verbatim>\<open>-\<close> and any rest.
\<close>

theorem find_csv_filenames_prefix:
  assumes "listdir e path_to_dir = Inr filenames"
  shows "find_csv_filenames e path_to_dir yr =
           Inr (filter (\<lambda>filename. \<exists>rest. filename = ''quotes-'' @ str_year yr @ ''-'' @ rest)
                  filenames)"
proof -
  have "(\<lambda>filename. startswith filename (''quotes-'' @ str_year yr @ ''-'')) =
        (\<lambda>filename. \<exists>rest. filename = ''quotes-'' @ str_year yr @ ''-'' @ rest)"
    by (rule ext) (simp add: startswith_iff)
  with assms show ?thesis
    by (simp add: find_csv_filenames_def)
qed

theorem find_csv_filenames_prefix_witness:
  "listdir scan_example ''Data/'' = Inr [''quotes-2020-1'', ''quotes-2021-1'', ''other-2020-1''] \<and>
   find_csv_filenames scan_example ''Data/'' (YInt 2020) = Inr [''quotes-2020-1''] \<and>
   filter (\<lambda>filename. \<exists>rest. filename = ''quotes-'' @ str_year (YInt 2020) @ ''-'' @ rest)
     [''quotes-2020-1'', ''quotes-2021-1'', ''other-2020-1''] = [''quotes-2020-1'']"
proof -
  have l: "listdir scan_example ''Data/'' = Inr [''quotes-2020-1'', ''quotes-2021-1'', ''other-2020-1'']"
    by (simp add: scan_example_def)
  have r: "find_csv_filenames scan_example ''Data/'' (YInt 2020) = Inr [''quotes-2020-1'']"
    by (simp add: find_csv_filenames_def scan_example_def startswith_def str_2020)
  from find_csv_filenames_prefix [OF l, of "YInt 2020"] r
  have "filter (\<lambda>filename. \<exists>rest. filename = ''quotes-'' @ str_year (YInt 2020) @ ''-'' @ rest)
     [''quotes-2020-1'', ''quotes-2021-1'', ''other-2020-1''] = [''quotes-2020-1'']"
    by simp
  with l r show ?thesis by blast
qed

text \<open>
  Claim C8. When the scan of \<^verbatim>\<open>Data/\<close> returns no file for the year, \<^verbatim>\<open>get_quotes\<close> raises
  IndexError at \<^verbatim>\<open>file_arr[0]\<close>, before any file is read; no frame is returned.
\<close>

theorem get_quotes_no_files:
  assumes "find_csv_filenames e ''Data/'' yr = Inr []"
  shows "get_quotes e speaker yr = Inl IndexError"
  using assms by (simp add: get_quotes_def)

theorem get_quotes_no_files_witness:
  "find_csv_filenames scan_example ''Data/'' (YInt 2019) = Inr [] \<and>
   get_quotes scan_example ''Elon Musk'' (YInt 2019) = Inl IndexError"
proof -
  have "str_int 2019 = ''2019''"
    by (simp add: str_int_def str_nat.simps digit_char_def)
  then have f: "find_csv_filenames scan_example ''Data/'' (YInt 2019) = Inr []"
    by (simp add: find_csv_filenames_def scan_example_def startswith_def)
  from get_quotes_no_files [OF f] f show ?thesis by blast
qed

lemma col_pos_nth: "distinct cs \<Longrightarrow> k < length cs \<Longrightarrow> col_pos (cs ! k) cs = Some k"
proof (induction cs arbitrary: k)
  case Nil
  then show ?case by simp
next
  case (Cons c cs)
  then show ?case by (cases k) auto
qed

lemma reindex_row_same:
  assumes "distinct cs" and "length (snd r) = length cs"
  shows "reindex_row cs cs r = r"
proof -
  have "map (\<lambda>c. case col_pos c cs of None \<Rightarrow> Flt NaN | Some j \<Rightarrow> snd r ! j) cs = snd r"
    using assms by (intro nth_equalityI) (simp_all add: col_pos_nth)
  then show ?thesis by (simp add: reindex_row_def)
qed

lemma concat_frames_same:
  assumes "wf_table a" and "wf_table b" and "columns b = columns a"
  shows "concat_frames a b = \<lparr>columns = columns a, rows = rows a @ rows b\<rparr>"
proof -
  have f: "filter (\<lambda>c. c \<notin> set (columns a)) (columns b) = []"
    using assms(3) by simp
  have ra: "map (reindex_row (columns a) (columns a)) (rows a) = rows a"
    using assms(1) by (intro map_idI reindex_row_same) (auto simp: wf_table_def list_all_iff)
  have rb: "map (reindex_row (columns b) (columns a)) (rows b) = rows b"
    using assms(2,3) by (intro map_idI) (auto simp: wf_table_def list_all_iff reindex_row_same)
  show ?thesis
    by (simp add: concat_frames_def f ra rb)
qed

lemma mask_filter: "map fst (filter snd (zip xs (map P xs))) = filter P xs"
  by (induction xs) auto

lemma filter_speaker_rows:
  assumes "col_pos ''speaker'' (columns t) = Some j"
  shows "filter_speaker t speaker =
           Inr \<lparr>columns = columns t, rows = filter (\<lambda>r. snd r ! j = Str speaker) (rows t)\<rparr>"
  using assms mask_filter [of "rows t" "\<lambda>r. snd r ! j = Str speaker"]
  by (simp add: filter_speaker_def getitem_def loc_mask_def comp_def)

lemma wf_table_filter:
  "wf_table t \<Longrightarrow> wf_table \<lparr>columns = columns t, rows = filter P (rows t)\<rparr>"
  by (simp add: wf_table_def list_all_iff)

lemma get_quotes_loop_rows:
  assumes "\<forall>name\<in>set names. read_csv e (''Data/'' @ name) = Inr (chunk name) \<and>
             wf_table (chunk name) \<and> columns (chunk name) = cols"
    and "col_pos ''speaker'' cols = Some j"
    and "wf_table df_all" and "columns df_all = cols"
  shows "get_quotes_loop e speaker names df_all =
           Inr \<lparr>columns = cols,
                rows = rows df_all @
                  concat (map (\<lambda>name. filter (\<lambda>r. snd r ! j = Str speaker) (rows (chunk name))) names)\<rparr>"
  using assms
proof (induction names arbitrary: df_all)
  case Nil
  then show ?case by simp
next
  case (Cons name names)
  let ?cur = "\<lparr>columns = columns (chunk name),
               rows = filter (\<lambda>r. snd r ! j = Str speaker) (rows (chunk name))\<rparr>"
  have c: "read_csv e (''Data/'' @ name) = Inr (chunk name)" "wf_table (chunk name)"
      "columns (chunk name) = cols"
    using Cons.prems(1) by simp_all
  have fs: "filter_speaker (chunk name) speaker = Inr ?cur"
    using filter_speaker_rows c(3) Cons.prems(2) by simp
  have wcur: "wf_table ?cur" using wf_table_filter [OF c(2)] .
  have cc: "concat_frames df_all ?cur = \<lparr>columns = cols, rows = rows df_all @ rows ?cur\<rparr>"
    using concat_frames_same [OF Cons.prems(3) wcur] c(3) Cons.prems(4) by simp
  have wnew: "wf_table \<lparr>columns = cols, rows = rows df_all @ rows ?cur\<rparr>"
    using Cons.prems(3,4) wcur c(3) by (simp add: wf_table_def)
  have rest: "\<forall>name\<in>set names. read_csv e (''Data/'' @ name) = Inr (chunk name) \<and>
             wf_table (chunk name) \<and> columns (chunk name) = cols"
    using Cons.prems(1) by simp
  have "get_quotes_loop e speaker (name # names) df_all =
          get_quotes_loop e speaker names \<lparr>columns = cols, rows = rows df_all @ rows ?cur\<rparr>"
    using c(1) fs cc by simp
  also have "\<dots> = Inr \<lparr>columns = cols,
                rows = rows \<lparr>columns = cols, rows = rows df_all @ rows ?cur\<rparr> @
                  concat (map (\<lambda>name. filter (\<lambda>r. snd r ! j = Str speaker) (rows (chunk name))) names)\<rparr>"
    by (rule Cons.IH [OF rest Cons.prems(2) wnew]) simp
  finally show ?case by simp
qed

text \<open>
  Claim C4. When the scan finds at least one file for the year and every file found reads
  as a frame of one common schema with a \<^verbatim>\<open>speaker\<close> column, \<^verbatim>\<open>get_quotes\<close> returns the frame
  of that schema whose rows are, file after file in the order of the scan and within a
  file in the file's order, the rows whose \<^verbatim>\<open>speaker\<close> cell is the given string.
\<close>

theorem get_quotes_rows:
  assumes "find_csv_filenames e ''Data/'' yr = Inr filenames" and "filenames \<noteq> []"
    and "\<forall>name\<in>set filenames. read_csv e (''Data/'' @ name) = Inr (chunk name) \<and>
             wf_table (chunk name) \<and> columns (chunk name) = cols"
    and "col_pos ''speaker'' cols = Some j"
  shows "get_quotes e speaker yr =
           Inr \<lparr>columns = cols,
                rows = concat (map (\<lambda>name. filter (\<lambda>r. snd r ! j = Str speaker) (rows (chunk name)))
                                filenames)\<rparr>"
proof -
  from assms(2) obtain first names where fn: "filenames = first # names"
    by (cases filenames) auto
  let ?df1 = "\<lparr>columns = columns (chunk first),
               rows = filter (\<lambda>r. snd r ! j = Str speaker) (rows (chunk first))\<rparr>"
  have c: "read_csv e (''Data/'' @ first) = Inr (chunk first)" "wf_table (chunk first)"
      "columns (chunk first) = cols"
    using assms(3) fn by simp_all
  have fs: "filter_speaker (chunk first) speaker = Inr ?df1"
    using filter_speaker_rows c(3) assms(4) by simp
  have w: "wf_table ?df1" using wf_table_filter [OF c(2)] .
  have rest: "\<forall>name\<in>set names. read_csv e (''Data/'' @ name) = Inr (chunk name) \<and>
             wf_table (chunk name) \<and> columns (chunk name) = cols"
    using assms(3) fn by simp
  have "get_quotes e speaker yr = get_quotes_loop e speaker names ?df1"
    using assms(1) fn c(1) fs by (simp add: get_quotes_def)
  also have "\<dots> = Inr \<lparr>columns = cols,
                rows = rows ?df1 @
                  concat (map (\<lambda>name. filter (\<lambda>r. snd r ! j = Str speaker) (rows (chunk name))) names)\<rparr>"
    by (rule get_quotes_loop_rows [OF rest assms(4) w]) (simp add: c(3))
  finally show ?thesis using fn by simp
qed

theorem get_quotes_rows_witness:
  "find_csv_filenames chunks_example ''Data/'' (YInt 2020) = Inr [''quotes-2020-2'', ''quotes-2020-1''] \<and>
   [''quotes-2020-2'', ''quotes-2020-1''] \<noteq> [] \<and>
   read_csv chunks_example ''Data/quotes-2020-2'' = Inr chunk2_example \<and>
   read_csv chunks_example ''Data/quotes-2020-1'' = Inr chunk1_example \<and>
   wf_table chunk1_example \<and> wf_table chunk2_example \<and>
   col_pos ''speaker'' [''quotation'', ''speaker''] = Some 1 \<and>
   get_quotes chunks_example ''A'' (YInt 2020) =
     Inr \<lparr>columns = [''quotation'', ''speaker''],
          rows = [(0, [Str ''one'', Str ''A'']), (2, [Str ''three'', Str ''A''])]\<rparr>"
proof -
  have f: "find_csv_filenames chunks_example ''Data/'' (YInt 2020) =
             Inr [''quotes-2020-2'', ''quotes-2020-1'']"
    by (simp add: find_csv_filenames_def chunks_example_def startswith_def str_2020)
  have n: "[''quotes-2020-2'', ''quotes-2020-1''] \<noteq> []" by simp
  have r: "read_csv chunks_example ''Data/quotes-2020-2'' = Inr chunk2_example"
      "read_csv chunks_example ''Data/quotes-2020-1'' = Inr chunk1_example"
    by (simp_all add: chunks_example_def)
  have w: "wf_table chunk1_example" "wf_table chunk2_example"
    by (simp_all add: wf_table_def chunk1_example_def chunk2_example_def)
  have cs: "columns chunk1_example = [''quotation'', ''speaker'']"
      "columns chunk2_example = [''quotation'', ''speaker'']"
    by (simp_all add: chunk1_example_def chunk2_example_def)
  have a: "\<forall>name\<in>set [''quotes-2020-2'', ''quotes-2020-1''].
             read_csv chunks_example (''Data/'' @ name) = Inr (chunk_of_example name) \<and>
             wf_table (chunk_of_example name) \<and>
             columns (chunk_of_example name) = [''quotation'', ''speaker'']"
    using r w cs by (simp add: chunk_of_example_def)
  have p: "col_pos ''speaker'' [''quotation'', ''speaker''] = Some 1" by simp
  have "get_quotes chunks_example ''A'' (YInt 2020) =
     Inr \<lparr>columns = [''quotation'', ''speaker''],
          rows = [(0, [Str ''one'', Str ''A'']), (2, [Str ''three'', Str ''A''])]\<rparr>"
    using get_quotes_rows [OF f n a p, of "''A''"]
    by (simp add: chunk_of_example_def chunk1_example_def chunk2_example_def)
  with f n r w p show ?thesis by blast
qed

section \<open>The organization table\<close>

lemma apply_series_map:
  "\<forall>x\<in>set xs. f x = Inr (g x) \<Longrightarrow> apply_series f xs = Inr (map g xs)"
  by (induction xs) auto

lemma drop_seen_values:
  "distinct (map snd (drop_seen seen rs)) \<and>
   set (map snd (drop_seen seen rs)) = set (map snd rs) - set seen"
proof (induction rs arbitrary: seen)
  case Nil
  then show ?case by simp
next
  case (Cons r rs)
  show ?case
  proof (cases "snd r \<in> set seen")
    case True
    with Cons [of seen] show ?thesis by auto
  next
    case False
    with Cons [of "snd r # seen"] show ?thesis by auto
  qed
qed

lemma drop_seen_subseq: "subseq (drop_seen seen rs) rs"
  by (induction rs arbitrary: seen) auto

lemma map_snd_enumerate: "map snd (zip [0..<length xs] xs) = xs"
  by (simp add: map_snd_zip)

lemma create_org_df_values:
  "create_org_df spacy_nlp df = Inr out \<Longrightarrow> distinct (map snd (rows out))"
  by (auto simp: create_org_df_def drop_duplicates_def drop_seen_values split: sum.splits)

lemma index_map_zip:
  assumes "length ys = length xs"
  shows "map (\<lambda>i. F (xs ! i) (ys ! i)) [0..<length xs] = map (\<lambda>(x, y). F x y) (zip xs ys)"
  using assms by (intro nth_equalityI) simp_all

lemma org_dicts_row:
  assumes "col_pos ''date'' (columns df) = Some jd"
    and "col_pos ''numOccurrences'' (columns df) = Some jn"
    and "col_pos ''quotation'' (columns df) = Some jq"
    and "col_pos ''quoteID'' (columns df) = Some ji"
    and "col_pos ''probas'' (columns df) = Some jp"
    and "snd (rows df ! i) ! jq = Str quote"
  shows "org_dicts spacy_nlp df i =
           Inr (map (\<lambda>element. [Str (fst element), snd (rows df ! i) ! jd, snd (rows df ! i) ! jn,
                                 snd (rows df ! i) ! jq, snd (rows df ! i) ! ji, snd (rows df ! i) ! jp])
                  (filter (\<lambda>element. snd element = ''ORG'') (spacy_nlp quote)))"
proof -
  have d: "\<And>element. org_dict df i element =
             Inr [Str (fst element), snd (rows df ! i) ! jd, snd (rows df ! i) ! jn,
                  snd (rows df ! i) ! jq, snd (rows df ! i) ! ji, snd (rows df ! i) ! jp]"
    using assms(1-5) by (simp add: org_dict_def iloc_get_def)
  have q: "iloc_get df i ''quotation'' = Inr (Str quote)"
    using assms(3,6) by (simp add: iloc_get_def)
  show ?thesis
    using q apply_series_map [of _ "org_dict df i"] d by (simp add: org_dicts_def)
qed

text \<open>
  Claim C6. For a frame with the five carried columns whose quotations are strings,
  \<^verbatim>\<open>create_org_df\<close> returns a frame. The dictionaries it collects are, row after row, one
  per entity labelled \<^verbatim>\<open>ORG\<close>: the entity's text, then the row's date, numOccurrences,
  quotation, quoteID and probas. The rows of the result are these with the repeats left
  out: no two rows have the same cells, every collected value is still there, and the
  order is kept.
\<close>

theorem create_org_df_rows:
  assumes "col_pos ''date'' (columns df) = Some jd"
    and "col_pos ''numOccurrences'' (columns df) = Some jn"
    and "col_pos ''quotation'' (columns df) = Some jq"
    and "col_pos ''quoteID'' (columns df) = Some ji"
    and "col_pos ''probas'' (columns df) = Some jp"
    and "map (\<lambda>r. snd r ! jq) (rows df) = map Str quotes"
  shows "\<exists>out quote_list.
           create_org_df spacy_nlp df = Inr out \<and>
           quote_list =
             concat (map (\<lambda>(r, quote).
                       map (\<lambda>element. [Str (fst element), snd r ! jd, snd r ! jn,
                                         snd r ! jq, snd r ! ji, snd r ! jp])
                         (filter (\<lambda>element. snd element = ''ORG'') (spacy_nlp quote)))
                     (zip (rows df) quotes)) \<and>
           distinct (map snd (rows out)) \<and>
           set (map snd (rows out)) = set quote_list \<and>
           subseq (map snd (rows out)) quote_list"
proof -
  let ?row = "\<lambda>r element. [Str (fst element), snd r ! jd, snd r ! jn, snd r ! jq, snd r ! ji, snd r ! jp]"
  let ?G = "\<lambda>r quote. map (?row r) (filter (\<lambda>element. snd element = ''ORG'') (spacy_nlp quote))"
  let ?ql = "concat (map (\<lambda>(r, quote). ?G r quote) (zip (rows df) quotes))"
  let ?out = "drop_duplicates (from_dict ?ql)"
  have len: "length quotes = length (rows df)"
    using assms(6) by (metis length_map)
  have q: "\<forall>i\<in>set [0..<length (rows df)]. snd (rows df ! i) ! jq = Str (quotes ! i)"
  proof
    fix i assume "i \<in> set [0..<length (rows df)]"
    then have i: "i < length (rows df)" by simp
    then have "map (\<lambda>r. snd r ! jq) (rows df) ! i = map Str quotes ! i"
      using assms(6) by simp
    with i len show "snd (rows df ! i) ! jq = Str (quotes ! i)" by simp
  qed
  have "\<forall>i\<in>set [0..<length (rows df)]. org_dicts spacy_nlp df i = Inr (?G (rows df ! i) (quotes ! i))"
    using org_dicts_row [OF assms(1-5)] q by blast
  then have "apply_series (org_dicts spacy_nlp df) [0..<length (rows df)] =
               Inr (map (\<lambda>i. ?G (rows df ! i) (quotes ! i)) [0..<length (rows df)])"
    by (rule apply_series_map)
  also have "map (\<lambda>i. ?G (rows df ! i) (quotes ! i)) [0..<length (rows df)] =
               map (\<lambda>(r, quote). ?G r quote) (zip (rows df) quotes)"
    using index_map_zip [OF len, of ?G] .
  finally have run: "create_org_df spacy_nlp df = Inr ?out"
    by (simp add: create_org_df_def)
  have rws: "rows ?out = drop_seen [] (zip [0..<length ?ql] ?ql)"
    by (simp add: drop_duplicates_def from_dict_def)
  have d: "distinct (map snd (rows ?out))"
    unfolding rws using drop_seen_values by blast
  have st: "set (map snd (rows ?out)) = set ?ql"
    unfolding rws using drop_seen_values [of "[]" "zip [0..<length ?ql] ?ql"]
    by (simp only: map_snd_enumerate) simp
  have "subseq (map snd (drop_seen [] (zip [0..<length ?ql] ?ql))) (map snd (zip [0..<length ?ql] ?ql))"
    using drop_seen_subseq by (rule subseq_map)
  then have sb: "subseq (map snd (rows ?out)) ?ql"
    unfolding rws by (simp only: map_snd_enumerate)
  from run d st sb show ?thesis by blast
qed

lemma org_example_run:
  "create_org_df example_nlp org_example =
     Inr \<lparr>columns = [''ORG'', ''date'', ''numOccurrences'', ''quotation'', ''quoteID'', ''probas''],
          rows = [(0, [Str ''Tesla'', Str ''2020-01-01'', IntC 2, Str ''Tesla Tesla'', Str ''q0'', Str ''[]'']),
                  (2, [Str ''Tesla'', Str ''2020-01-03'', IntC 5, Str ''Tesla and SpaceX in Texas'',
                       Str ''q2'', Str ''[]'']),
                  (3, [Str ''SpaceX'', Str ''2020-01-03'', IntC 5, Str ''Tesla and SpaceX in Texas'',
                       Str ''q2'', Str ''[]''])]\<rparr>"
  by code_simp

theorem create_org_df_rows_witness:
  "col_pos ''date'' (columns org_example) = Some 2 \<and>
   col_pos ''numOccurrences'' (columns org_example) = Some 3 \<and>
   col_pos ''quotation'' (columns org_example) = Some 1 \<and>
   col_pos ''quoteID'' (columns org_example) = Some 0 \<and>
   col_pos ''probas'' (columns org_example) = Some 4 \<and>
   map (\<lambda>r. snd r ! 1) (rows org_example) =
     map Str [''Tesla Tesla'', ''nothing here'', ''Tesla and SpaceX in Texas''] \<and>
   example_nlp ''Tesla Tesla'' = [(''Tesla'', ''ORG''), (''Tesla'', ''ORG'')] \<and>
   create_org_df example_nlp org_example =
     Inr \<lparr>columns = [''ORG'', ''date'', ''numOccurrences'', ''quotation'', ''quoteID'', ''probas''],
          rows = [(0, [Str ''Tesla'', Str ''2020-01-01'', IntC 2, Str ''Tesla Tesla'', Str ''q0'', Str ''[]'']),
                  (2, [Str ''Tesla'', Str ''2020-01-03'', IntC 5, Str ''Tesla and SpaceX in Texas'',
                       Str ''q2'', Str ''[]'']),
                  (3, [Str ''SpaceX'', Str ''2020-01-03'', IntC 5, Str ''Tesla and SpaceX in Texas'',
                       Str ''q2'', Str ''[]''])]\<rparr> \<and>
   (\<exists>out. create_org_df example_nlp org_example = Inr out \<and> distinct (map snd (rows out)))"
proof -
  have h: "col_pos ''date'' (columns org_example) = Some 2"
      "col_pos ''numOccurrences'' (columns org_example) = Some 3"
      "col_pos ''quotation'' (columns org_example) = Some 1"
      "col_pos ''quoteID'' (columns org_example) = Some 0"
      "col_pos ''probas'' (columns org_example) = Some 4"
      "map (\<lambda>r. snd r ! 1) (rows org_example) =
         map Str [''Tesla Tesla'', ''nothing here'', ''Tesla and SpaceX in Texas'']"
    by (simp_all add: org_example_def)
  have n: "example_nlp ''Tesla Tesla'' = [(''Tesla'', ''ORG''), (''Tesla'', ''ORG'')]"
    by (simp add: example_nlp_def)
  have "\<exists>out. create_org_df example_nlp org_example = Inr out \<and> distinct (map snd (rows out))"
    using create_org_df_rows [OF h, of example_nlp] by blast
  with h n org_example_run show ?thesis by blast
qed

section \<open>Chunking a source\<close>

lemma chunks_of_Nil [simp]: "chunks_of n [] = []"
  by (simp add: chunks_of.simps)

lemma chunks_of_Cons:
  "xs \<noteq> [] \<Longrightarrow> 0 < n \<Longrightarrow> chunks_of n xs = take n xs # chunks_of n (drop n xs)"
  by (simp add: chunks_of.simps [of n xs])

lemma concat_chunks_of: "0 < n \<Longrightarrow> concat (chunks_of n xs) = xs"
proof (induction n xs rule: chunks_of.induct)
  case (1 n xs)
  then show ?case
    by (cases "xs = []") (simp_all add: chunks_of_Cons)
qed

lemma length_chunks_of: "0 < n \<Longrightarrow> length (chunks_of n xs) = (length xs + n - 1) div n"
proof (induction n xs rule: chunks_of.induct)
  case (1 n xs)
  show ?case
  proof (cases "xs = []")
    case True
    with 1 show ?thesis by simp
  next
    case False
    then have pos: "0 < length xs" by simp
    have "length (chunks_of n xs) = Suc ((length xs - n + n - 1) div n)"
      using 1 False by (simp add: chunks_of_Cons)
    also have "\<dots> = (length xs + n - 1) div n"
    proof (cases "length xs \<le> n")
      case True
      have l: "Suc 0 \<le> length xs" using False by (cases xs) simp_all
      have "n * 1 \<le> length xs + n - 1" "length xs + n - 1 < n * Suc 1"
        using l True 1(2) by auto
      then have "(length xs + n - 1) div n = 1"
        by (rule div_nat_eqI)
      with True 1(2) show ?thesis by simp
    next
      case False
      define a where "a = length xs - n + n - 1"
      have e: "length xs + n - 1 = a + n"
        using False 1(2) unfolding a_def by linarith
      have "(a + n) div n = Suc (a div n)"
        using 1(2) by simp
      then have "(length xs + n - 1) div n = Suc ((length xs - n + n - 1) div n)"
        unfolding e a_def .
      then show ?thesis by simp
    qed
    finally show ?thesis .
  qed
qed

lemma nth_chunks_of:
  "0 < n \<Longrightarrow> k < length (chunks_of n xs) \<Longrightarrow> chunks_of n xs ! k = take n (drop (k * n) xs)"
proof (induction n xs arbitrary: k rule: chunks_of.induct)
  case (1 n xs)
  show ?case
  proof (cases "xs = []")
    case True
    with 1(3) show ?thesis by simp
  next
    case False
    show ?thesis
    proof (cases k)
      case 0
      with False 1(2) show ?thesis by (simp add: chunks_of_Cons)
    next
      case (Suc j)
      with 1(3) False 1(2) have "j < length (chunks_of n (drop n xs))"
        by (simp add: chunks_of_Cons)
      with 1(1) [of j] False 1(2) have "chunks_of n (drop n xs) ! j = take n (drop (j * n) (drop n xs))"
        by simp
      with Suc False 1(2) show ?thesis
        by (simp add: chunks_of_Cons add.commute)
    qed
  qed
qed

lemma digit_val_digit_char: "d < 10 \<Longrightarrow> digit_val (digit_char d) = int d"
proof -
  assume "d < 10"
  then have "d = 0 \<or> d = 1 \<or> d = 2 \<or> d = 3 \<or> d = 4 \<or> d = 5 \<or> d = 6 \<or> d = 7 \<or> d = 8 \<or> d = 9"
    by arith
  then show ?thesis
    by (auto simp: digit_val_def digit_char_def)
qed

lemma digits_val_snoc: "digits_val (ds @ [c]) = 10 * digits_val ds + digit_val c"
  by (simp add: digits_val_def)

lemma digits_val_str_nat: "digits_val (str_nat n) = int n"
proof (induction n rule: str_nat.induct)
  case (1 n)
  show ?case
  proof (cases "n < 10")
    case True
    then show ?thesis
      by (simp add: str_nat.simps [of n] digits_val_def digit_val_digit_char)
  next
    case False
    with 1 have "digits_val (str_nat (n div 10)) = int (n div 10)" by simp
    moreover have "10 * int (n div 10) + int (n mod 10) = int n"
      by presburger
    ultimately show ?thesis
      using False by (simp add: str_nat.simps [of n] digits_val_snoc digit_val_digit_char)
  qed
qed

lemma str_nat_inj: "str_nat a = str_nat b \<Longrightarrow> a = b"
  by (metis digits_val_str_nat of_nat_eq_iff)

lemma csv_name_inj: "csv_name outputname a = csv_name outputname b \<Longrightarrow> a = b"
  by (simp add: csv_name_def str_nat_inj)

lemma bz2_name_inj:
  "csv_name outputname a @ ''.bz2'' = csv_name outputname b @ ''.bz2'' \<Longrightarrow> a = b"
  by (simp add: csv_name_inj)

lemma csv_name_not_bz2: "csv_name outputname a \<noteq> csv_name outputname b @ ''.bz2''"
proof
  assume "csv_name outputname a = csv_name outputname b @ ''.bz2''"
  then have "last (csv_name outputname a) = last (csv_name outputname b @ ''.bz2'')"
    by simp
  then show False
    by (simp add: csv_name_def)
qed

lemma ceil_div_nat:
  fixes r c :: nat
  assumes "0 < c"
  shows "(r + c - 1) div c = nat \<lceil>rat_of_nat r / rat_of_nat c\<rceil>"
proof -
  define n where "n = (r + c - 1) div c"
  have a: "n * c \<le> r + c - 1"
    by (simp add: n_def)
  have b: "r + c - 1 < c + n * c"
    unfolding n_def using assms by (rule dividend_less_div_times)
  from a assms have "n * c < r + c" by linarith
  then have "rat_of_nat (n * c) < rat_of_nat (r + c)"
    by (simp only: of_nat_less_iff)
  then have lo: "(rat_of_nat n - 1) * rat_of_nat c < rat_of_nat r"
    by (simp add: algebra_simps)
  from b assms have "r \<le> n * c" by linarith
  then have "rat_of_nat r \<le> rat_of_nat (n * c)"
    by (simp only: of_nat_le_iff)
  then have hi: "rat_of_nat r \<le> rat_of_nat n * rat_of_nat c"
    by simp
  have cpos: "0 < rat_of_nat c" using assms by simp
  have "of_int (int n) - 1 < rat_of_nat r / rat_of_nat c"
    using lo cpos by (simp add: pos_less_divide_eq)
  moreover have "rat_of_nat r / rat_of_nat c \<le> of_int (int n)"
    using hi cpos by (simp add: pos_divide_le_eq)
  ultimately have "\<lceil>rat_of_nat r / rat_of_nat c\<rceil> = int n"
    by (rule ceiling_unique)
  then show ?thesis by (simp add: n_def)
qed

lemma chunkify_loop_files:
  "\<exists>files'. chunkify_loop outputname header b chunks files = Inr files' \<and>
     (\<forall>i<length chunks. files' (csv_name outputname (b + i) @ ''.bz2'') =
                            Some (Bz2 (Csv header (chunks ! i)))) \<and>
     (\<forall>i<length chunks. files' (csv_name outputname (b + i)) = None) \<and>
     (\<forall>p. (\<forall>i<length chunks. p \<noteq> csv_name outputname (b + i) \<and>
                                  p \<noteq> csv_name outputname (b + i) @ ''.bz2'') \<longrightarrow>
          files' p = files p)"
proof (induction chunks arbitrary: b files)
  case Nil
  then show ?case by simp
next
  case (Cons chunk chunks)
  let ?out = "csv_name outputname b"
  let ?f3 = "(files(?out \<mapsto> Csv header chunk, ?out @ ''.bz2'' \<mapsto> Bz2 (Csv header chunk)))(?out := None)"
  have step: "chunkify_loop outputname header b (chunk # chunks) files =
                chunkify_loop outputname header (b + 1) chunks ?f3"
    by (simp add: Let_def)
  from Cons [of "b + 1" ?f3] obtain files' where
    r: "chunkify_loop outputname header (b + 1) chunks ?f3 = Inr files'"
    and z: "\<forall>i<length chunks. files' (csv_name outputname (b + 1 + i) @ ''.bz2'') =
                            Some (Bz2 (Csv header (chunks ! i)))"
    and c: "\<forall>i<length chunks. files' (csv_name outputname (b + 1 + i)) = None"
    and o: "\<forall>p. (\<forall>i<length chunks. p \<noteq> csv_name outputname (b + 1 + i) \<and>
                                  p \<noteq> csv_name outputname (b + 1 + i) @ ''.bz2'') \<longrightarrow>
          files' p = ?f3 p"
    by blast
  have far: "\<And>i. csv_name outputname b \<noteq> csv_name outputname (b + 1 + i)"
    using csv_name_inj by fastforce
  have farz: "\<And>i. csv_name outputname b @ ''.bz2'' \<noteq> csv_name outputname (b + 1 + i) @ ''.bz2''"
    using far by simp
  have f0z: "files' (?out @ ''.bz2'') = Some (Bz2 (Csv header chunk))"
  proof -
    have "files' (?out @ ''.bz2'') = ?f3 (?out @ ''.bz2'')"
      using o farz csv_name_not_bz2 [of outputname _ b] by (metis (no_types, lifting))
    then show ?thesis by simp
  qed
  have f0c: "files' ?out = None"
  proof -
    have "files' ?out = ?f3 ?out"
      using o far csv_name_not_bz2 [of outputname b] by (metis (no_types, lifting))
    then show ?thesis by simp
  qed
  have Z: "\<forall>i<length (chunk # chunks). files' (csv_name outputname (b + i) @ ''.bz2'') =
                            Some (Bz2 (Csv header ((chunk # chunks) ! i)))"
  proof (intro allI impI)
    fix i assume i: "i < length (chunk # chunks)"
    show "files' (csv_name outputname (b + i) @ ''.bz2'') = Some (Bz2 (Csv header ((chunk # chunks) ! i)))"
    proof (cases i)
      case 0
      with f0z show ?thesis by simp
    next
      case (Suc j)
      with i z show ?thesis by simp
    qed
  qed
  have C: "\<forall>i<length (chunk # chunks). files' (csv_name outputname (b + i)) = None"
  proof (intro allI impI)
    fix i assume i: "i < length (chunk # chunks)"
    show "files' (csv_name outputname (b + i)) = None"
    proof (cases i)
      case 0
      with f0c show ?thesis by simp
    next
      case (Suc j)
      with i c show ?thesis by simp
    qed
  qed
  have O: "\<forall>p. (\<forall>i<length (chunk # chunks). p \<noteq> csv_name outputname (b + i) \<and>
                                  p \<noteq> csv_name outputname (b + i) @ ''.bz2'') \<longrightarrow>
          files' p = files p"
  proof (intro allI impI)
    fix p
    assume p: "\<forall>i<length (chunk # chunks). p \<noteq> csv_name outputname (b + i) \<and>
                                  p \<noteq> csv_name outputname (b + i) @ ''.bz2''"
    from p have p0: "p \<noteq> ?out" "p \<noteq> ?out @ ''.bz2''" by auto
    have "\<forall>i<length chunks. p \<noteq> csv_name outputname (b + 1 + i) \<and>
                                  p \<noteq> csv_name outputname (b + 1 + i) @ ''.bz2''"
    proof (intro allI impI)
      fix i assume "i < length chunks"
      then have "Suc i < length (chunk # chunks)" by simp
      with p have "p \<noteq> csv_name outputname (b + Suc i) \<and>
                                  p \<noteq> csv_name outputname (b + Suc i) @ ''.bz2''" by blast
      then show "p \<noteq> csv_name outputname (b + 1 + i) \<and>
                                  p \<noteq> csv_name outputname (b + 1 + i) @ ''.bz2''" by simp
    qed
    with o have "files' p = ?f3 p" by blast
    with p0 show "files' p = files p" by simp
  qed
  from step r Z C O show ?case by (intro exI [of _ files']) simp
qed

text \<open>
  Claim C3. For a chunk size of at least 1 and a source of R rows, \<^verbatim>\<open>chunkify\<close> returns, and
  with n the ceiling of R divided by the chunk size: for each batch number from 1 to n the
  file \<^verbatim>\<open>Data/<outputname>-<batch_no>.csv.bz2\<close> holds the compressed rows of that batch;
  these n names are distinct; the batches in order make up the source's rows; none of the
  files \<^verbatim>\<open>Data/<outputname>-<batch_no>.csv\<close> is left; every other path is as it was.
\<close>

theorem chunkify_files:
  assumes "1 \<le> chunk_size"
  shows "\<exists>files' n.
     chunkify files header source_rows chunk_size outputname = Inr files' \<and>
     n = nat \<lceil>rat_of_nat (length source_rows) / rat_of_int chunk_size\<rceil> \<and>
     (\<forall>k\<in>{1..n}. files' (''Data/'' @ outputname @ ''-'' @ str_nat k @ ''.csv.bz2'') =
         Some (Bz2 (Csv header
            (take (nat chunk_size) (drop ((k - 1) * nat chunk_size) source_rows))))) \<and>
     distinct (map (\<lambda>k. ''Data/'' @ outputname @ ''-'' @ str_nat k @ ''.csv.bz2'') [1..<Suc n]) \<and>
     concat (map (\<lambda>k. take (nat chunk_size) (drop ((k - 1) * nat chunk_size) source_rows))
               [1..<Suc n]) = source_rows \<and>
     (\<forall>k\<in>{1..n}. files' (''Data/'' @ outputname @ ''-'' @ str_nat k @ ''.csv'') = None) \<and>
     (\<forall>p. (\<forall>k\<in>{1..n}. p \<noteq> ''Data/'' @ outputname @ ''-'' @ str_nat k @ ''.csv.bz2'' \<and>
                         p \<noteq> ''Data/'' @ outputname @ ''-'' @ str_nat k @ ''.csv'') \<longrightarrow>
          files' p = files p)"
proof -
  define c where "c = nat chunk_size"
  define chunks where "chunks = chunks_of c source_rows"
  define n where "n = length chunks"
  have cpos: "0 < c" using assms by (simp add: c_def)
  have ci: "rat_of_int chunk_size = rat_of_nat c"
    using assms by (simp add: c_def)
  have nceil: "n = nat \<lceil>rat_of_nat (length source_rows) / rat_of_int chunk_size\<rceil>"
    unfolding ci n_def chunks_def using length_chunks_of [OF cpos] ceil_div_nat [OF cpos] by simp
  have nm: "\<And>k. csv_name outputname k = ''Data/'' @ outputname @ ''-'' @ str_nat k @ ''.csv''"
       "\<And>k. csv_name outputname k @ ''.bz2'' = ''Data/'' @ outputname @ ''-'' @ str_nat k @ ''.csv.bz2''"
    by (simp_all add: csv_name_def)
  have run: "chunkify files header source_rows chunk_size outputname =
               chunkify_loop outputname header 1 chunks files"
    using assms by (simp add: chunkify_def chunks_def c_def)
  from chunkify_loop_files [of outputname header 1 chunks files] obtain files' where
    r: "chunkify_loop outputname header 1 chunks files = Inr files'"
    and z: "\<forall>i<n. files' (csv_name outputname (1 + i) @ ''.bz2'') =
                            Some (Bz2 (Csv header (chunks ! i)))"
    and cs: "\<forall>i<n. files' (csv_name outputname (1 + i)) = None"
    and o: "\<forall>p. (\<forall>i<n. p \<noteq> csv_name outputname (1 + i) \<and>
                                  p \<noteq> csv_name outputname (1 + i) @ ''.bz2'') \<longrightarrow>
          files' p = files p"
    unfolding n_def by blast
  have nth: "\<And>i. i < n \<Longrightarrow> chunks ! i = take c (drop (i * c) source_rows)"
    unfolding n_def chunks_def using nth_chunks_of [OF cpos] by blast
  have Z: "\<forall>k\<in>{1..n}. files' (''Data/'' @ outputname @ ''-'' @ str_nat k @ ''.csv.bz2'') =
         Some (Bz2 (Csv header (take c (drop ((k - 1) * c) source_rows))))"
  proof
    fix k assume "k \<in> {1..n}"
    then have k: "k - 1 < n" "1 + (k - 1) = k" by auto
    from z k(1) have "files' (csv_name outputname (1 + (k - 1)) @ ''.bz2'') =
                            Some (Bz2 (Csv header (chunks ! (k - 1))))" by blast
    with k nth [OF k(1)] show "files' (''Data/'' @ outputname @ ''-'' @ str_nat k @ ''.csv.bz2'') =
         Some (Bz2 (Csv header (take c (drop ((k - 1) * c) source_rows))))"
      by (simp add: nm)
  qed
  have D: "distinct (map (\<lambda>k. ''Data/'' @ outputname @ ''-'' @ str_nat k @ ''.csv.bz2'') [1..<Suc n])"
    by (simp add: distinct_map inj_on_def str_nat_inj)
  have "map (\<lambda>k. take c (drop ((k - 1) * c) source_rows)) [1..<Suc n] = chunks"
  proof (rule nth_equalityI)
    show "length (map (\<lambda>k. take c (drop ((k - 1) * c) source_rows)) [1..<Suc n]) = length chunks"
      by (simp add: n_def del: upt_Suc)
  next
    fix i assume "i < length (map (\<lambda>k. take c (drop ((k - 1) * c) source_rows)) [1..<Suc n])"
    then have i: "i < n" by (simp del: upt_Suc)
    then have "[1..<Suc n] ! i = 1 + i" by (simp del: upt_Suc)
    with i nth [OF i]
    show "map (\<lambda>k. take c (drop ((k - 1) * c) source_rows)) [1..<Suc n] ! i = chunks ! i"
      by (simp del: upt_Suc)
  qed
  then have K: "concat (map (\<lambda>k. take c (drop ((k - 1) * c) source_rows)) [1..<Suc n]) = source_rows"
    using concat_chunks_of [OF cpos] by (simp add: chunks_def)
  have C: "\<forall>k\<in>{1..n}. files' (''Data/'' @ outputname @ ''-'' @ str_nat k @ ''.csv'') = None"
  proof
    fix k assume "k \<in> {1..n}"
    then have k: "k - 1 < n" "1 + (k - 1) = k" by auto
    from cs k(1) have "files' (csv_name outputname (1 + (k - 1))) = None" by blast
    with k show "files' (''Data/'' @ outputname @ ''-'' @ str_nat k @ ''.csv'') = None"
      by (simp add: nm)
  qed
  have O: "\<forall>p. (\<forall>k\<in>{1..n}. p \<noteq> ''Data/'' @ outputname @ ''-'' @ str_nat k @ ''.csv.bz2'' \<and>
                         p \<noteq> ''Data/'' @ outputname @ ''-'' @ str_nat k @ ''.csv'') \<longrightarrow>
          files' p = files p"
  proof (intro allI impI)
    fix p
    assume p: "\<forall>k\<in>{1..n}. p \<noteq> ''Data/'' @ outputname @ ''-'' @ str_nat k @ ''.csv.bz2'' \<and>
                         p \<noteq> ''Data/'' @ outputname @ ''-'' @ str_nat k @ ''.csv''"
    have "\<forall>i<n. p \<noteq> csv_name outputname (1 + i) \<and> p \<noteq> csv_name outputname (1 + i) @ ''.bz2''"
    proof (intro allI impI)
      fix i assume "i < n"
      then have "1 + i \<in> {1..n}" by simp
      with p have "p \<noteq> ''Data/'' @ outputname @ ''-'' @ str_nat (1 + i) @ ''.csv.bz2'' \<and>
                   p \<noteq> ''Data/'' @ outputname @ ''-'' @ str_nat (1 + i) @ ''.csv''"
        by blast
      then show "p \<noteq> csv_name outputname (1 + i) \<and> p \<noteq> csv_name outputname (1 + i) @ ''.bz2''"
        by (simp add: nm)
    qed
    with o show "files' p = files p" by blast
  qed
  from run r nceil Z D K C O show ?thesis
    unfolding c_def by (intro exI [of _ files'] exI [of _ n]) simp
qed

theorem chunkify_files_witness:
  "(1 :: int) \<le> 2 \<and>
   nat \<lceil>rat_of_nat (length source_example) / rat_of_int 2\<rceil> = 3 \<and>
   disk_example ''Data/quotes-2020-2.csv'' = Some (Csv [''old''] []) \<and>
   (\<exists>files'.
      chunkify disk_example [''quoteID'', ''speaker''] source_example 2 ''quotes-2020'' = Inr files' \<and>
      files' ''Data/quotes-2020-1.csv.bz2'' =
        Some (Bz2 (Csv [''quoteID'', ''speaker''] [[Str ''q1'', Str ''A''], [Str ''q2'', Str ''B'']])) \<and>
      files' ''Data/quotes-2020-2.csv.bz2'' =
        Some (Bz2 (Csv [''quoteID'', ''speaker''] [[Str ''q3'', Str ''A''], [Str ''q4'', Str ''C'']])) \<and>
      files' ''Data/quotes-2020-3.csv.bz2'' =
        Some (Bz2 (Csv [''quoteID'', ''speaker''] [[Str ''q5'', Str ''B'']])) \<and>
      files' ''Data/quotes-2020-1.csv'' = None \<and>
      files' ''Data/quotes-2020-2.csv'' = None \<and>
      files' ''Data/quotes-2020-3.csv'' = None)"
proof -
  have c: "(1 :: int) \<le> 2" by simp
  have n3: "nat \<lceil>rat_of_nat (length source_example) / rat_of_int 2\<rceil> = 3"
    using ceil_div_nat [of 2 5] by (simp add: source_example_def)
  have d: "disk_example ''Data/quotes-2020-2.csv'' = Some (Csv [''old''] [])"
    by (simp add: disk_example_def)
  have s: "str_nat (Suc 0) = ''1''" "str_nat 2 = ''2''" "str_nat 3 = ''3''"
    by (simp_all add: str_nat.simps digit_char_def)
  from chunkify_files [OF c, of disk_example "[''quoteID'', ''speaker'']" source_example "''quotes-2020''"]
  obtain files' where
    r: "chunkify disk_example [''quoteID'', ''speaker''] source_example 2 ''quotes-2020'' = Inr files'"
    and z: "\<forall>k\<in>{1..3}. files' (''Data/'' @ ''quotes-2020'' @ ''-'' @ str_nat k @ ''.csv.bz2'') =
         Some (Bz2 (Csv [''quoteID'', ''speaker'']
            (take (nat 2) (drop ((k - 1) * nat 2) source_example))))"
    and v: "\<forall>k\<in>{1..3}. files' (''Data/'' @ ''quotes-2020'' @ ''-'' @ str_nat k @ ''.csv'') = None"
    unfolding n3 by blast
  have m: "(1::nat) \<in> {1..3}" "(2::nat) \<in> {1..3}" "(3::nat) \<in> {1..3}" by simp_all
  have z1: "files' ''Data/quotes-2020-1.csv.bz2'' =
        Some (Bz2 (Csv [''quoteID'', ''speaker''] [[Str ''q1'', Str ''A''], [Str ''q2'', Str ''B'']]))"
    using z [rule_format, OF m(1)] by (simp add: s source_example_def)
  have z2: "files' ''Data/quotes-2020-2.csv.bz2'' =
        Some (Bz2 (Csv [''quoteID'', ''speaker''] [[Str ''q3'', Str ''A''], [Str ''q4'', Str ''C'']]))"
    using z [rule_format, OF m(2)] by (simp add: s source_example_def)
  have z3: "files' ''Data/quotes-2020-3.csv.bz2'' =
        Some (Bz2 (Csv [''quoteID'', ''speaker''] [[Str ''q5'', Str ''B'']]))"
    using z [rule_format, OF m(3)] by (simp add: s source_example_def)
  have v1: "files' ''Data/quotes-2020-1.csv'' = None"
    using v [rule_format, OF m(1)] by (simp add: s)
  have v2: "files' ''Data/quotes-2020-2.csv'' = None"
    using v [rule_format, OF m(2)] by (simp add: s)
  have v3: "files' ''Data/quotes-2020-3.csv'' = None"
    using v [rule_format, OF m(3)] by (simp add: s)
  from c n3 d r z1 z2 z3 v1 v2 v3 show ?thesis by blast
qed

end
